(* ===== verification/Kernel_Prelude.thy ===== *)
theory Kernel_Prelude
  imports Main "HOL-Library.Word" "HOL-Library.Signed_Division"
begin

text \<open>
  Shared vocabulary of the development: the machine integers of the C sources, the outcome of
  a C function that may hit undefined behaviour or a panic, bounds-checked access to C arrays,
  the flat physical memory with its 32-bit little-endian accesses, and the constants of
  \<^verbatim>\<open>src/src/status.h\<close> and \<^verbatim>\<open>src/src/config.h\<close>.

  Conventions. \<^verbatim>\<open>uint8_t\<close>, \<^verbatim>\<open>uint16_t\<close>, \<^verbatim>\<open>uint32_t\<close>, \<^verbatim>\<open>size_t\<close> and pointers are words of
  their width (the target is i686); a C \<^verbatim>\<open>int\<close> is an \<open>int\<close>, and a conversion between the two is
  written out (\<open>sint\<close>, \<open>of_int\<close>). A C array is a list; a pointer that only walks forward
  through an array is the suffix of the list that it points to. An access outside the array
  or through NULL is undefined in C: it is the fault \<open>OutOfBounds\<close> or \<open>NullDeref\<close> of the model,
  and a call of \<^verbatim>\<open>panic\<close>, which never returns, is the fault \<open>Panic\<close>.
\<close>

unbundle bit_operations_syntax

named_theorems outcome_simps \<open>rewriting of sequenced outcomes\<close>
named_theorems mem_simps \<open>reads over writes of the physical memory\<close>

section \<open>Machine integers and outcomes\<close>

type_synonym u8 = "8 word"
type_synonym u16 = "16 word"
type_synonym u32 = "32 word"

datatype fault =
    NullDeref          \<comment> \<open>a load or store through a null pointer\<close>
  | OutOfBounds        \<comment> \<open>an access outside the array the pointer belongs to\<close>
  | Panic string       \<comment> \<open>\<^verbatim>\<open>panic(msg)\<close>: print, then loop forever\<close>
  | DivideError        \<comment> \<open>an integer division by zero\<close>
  | Diverge            \<comment> \<open>a loop of the code that never ends\<close>
  | PageFault          \<comment> \<open>an access to a virtual address that is not mapped\<close>

type_synonym 'a outcome = "fault + 'a"

definition bind_r :: "'a outcome \<Rightarrow> ('a \<Rightarrow> 'b outcome) \<Rightarrow> 'b outcome" where
  "bind_r m f = (case m of Inl e \<Rightarrow> Inl e | Inr x \<Rightarrow> f x)"

definition nth_r :: "'a list \<Rightarrow> int \<Rightarrow> 'a outcome" where
  "nth_r xs i = (if 0 \<le> i \<and> nat i < length xs then Inr (xs ! nat i) else Inl OutOfBounds)"

definition upd_r :: "'a list \<Rightarrow> int \<Rightarrow> 'a \<Rightarrow> 'a list outcome" where
  "upd_r xs i v = (if 0 \<le> i \<and> nat i < length xs then Inr (xs[nat i := v]) else Inl OutOfBounds)"

definition deref :: "(u32 \<rightharpoonup> 'a) \<Rightarrow> u32 \<Rightarrow> 'a outcome" where
  "deref st p = (case st p of None \<Rightarrow> Inl NullDeref | Some x \<Rightarrow> Inr x)"

section \<open>Physical memory\<close>

type_synonym mem = "u32 \<Rightarrow> u8"

definition load32 :: "mem \<Rightarrow> u32 \<Rightarrow> u32" where
  "load32 m a = ucast (m a) OR push_bit 8 (ucast (m (a + 1)))
     OR push_bit 16 (ucast (m (a + 2))) OR push_bit 24 (ucast (m (a + 3)))"

definition store32 :: "mem \<Rightarrow> u32 \<Rightarrow> u32 \<Rightarrow> mem" where
  "store32 m a v = m(a := ucast v, a + 1 := ucast (drop_bit 8 v),
     a + 2 := ucast (drop_bit 16 v), a + 3 := ucast (drop_bit 24 v))"

text \<open>\<open>in_block a n x\<close>: the byte at \<open>x\<close> is one of the \<open>n\<close> bytes that start at \<open>a\<close>.\<close>

definition in_block :: "u32 \<Rightarrow> nat \<Rightarrow> u32 \<Rightarrow> bool" where
  "in_block a n x \<longleftrightarrow> unat (x - a) < n"

section \<open>Status codes and configuration\<close>

abbreviation (input) STATUS_OK :: int where "STATUS_OK \<equiv> 0"
abbreviation (input) EIO :: int where "EIO \<equiv> 1"
abbreviation (input) EINVARG :: int where "EINVARG \<equiv> 2"
abbreviation (input) ENOMEM :: int where "ENOMEM \<equiv> 3"
abbreviation (input) EBADPATH :: int where "EBADPATH \<equiv> 4"
abbreviation (input) EFSNOTUS :: int where "EFSNOTUS \<equiv> 5"
abbreviation (input) ERDONLY :: int where "ERDONLY \<equiv> 6"
abbreviation (input) EUNIMP :: int where "EUNIMP \<equiv> 7"
abbreviation (input) EISTAKEN :: int where "EISTAKEN \<equiv> 8"
abbreviation (input) EIFORMAT :: int where "EIFORMAT \<equiv> 9"

abbreviation (input) KERNEL_HEAP_SIZE :: u32 where "KERNEL_HEAP_SIZE \<equiv> 104857600"
abbreviation (input) HEAP_BLOCK_SIZE :: u32 where "HEAP_BLOCK_SIZE \<equiv> 4096"
abbreviation (input) KERNEL_HEAP_ADDRESS :: u32 where "KERNEL_HEAP_ADDRESS \<equiv> 0x01000000"
abbreviation (input) MAX_FILE_PATH_CHARS :: nat where "MAX_FILE_PATH_CHARS \<equiv> 128"

section \<open>Lemmas on outcomes and arrays\<close>

lemma bind_r_Inr [simp, outcome_simps]: "bind_r (Inr x) f = f x"
  by (simp add: bind_r_def)

lemma bind_r_Inl [simp, outcome_simps]: "bind_r (Inl e) f = Inl e"
  by (simp add: bind_r_def)

lemma bind_r_eq_Inr_iff: "bind_r m f = Inr y \<longleftrightarrow> (\<exists>x. m = Inr x \<and> f x = Inr y)"
  by (cases m) auto

lemma bind_r_eq_Inl_iff:
  "bind_r m f = Inl e \<longleftrightarrow> m = Inl e \<or> (\<exists>x. m = Inr x \<and> f x = Inl e)"
  by (cases m) auto

lemma bind_r_assoc: "bind_r (bind_r m f) g = bind_r m (\<lambda>x. bind_r (f x) g)"
  by (cases m) auto

lemma bind_r_cong [fundef_cong]:
  "m = m' \<Longrightarrow> (\<And>x. m' = Inr x \<Longrightarrow> f x = g x) \<Longrightarrow> bind_r m f = bind_r m' g"
  by (cases m') auto

lemma nth_r_in [simp]: "0 \<le> i \<Longrightarrow> nat i < length xs \<Longrightarrow> nth_r xs i = Inr (xs ! nat i)"
  by (simp add: nth_r_def)

lemma nth_r_of_nat: "nth_r xs (int i) = (if i < length xs then Inr (xs ! i) else Inl OutOfBounds)"
  by (simp add: nth_r_def)

lemma upd_r_in [simp]: "0 \<le> i \<Longrightarrow> nat i < length xs \<Longrightarrow> upd_r xs i v = Inr (xs[nat i := v])"
  by (simp add: upd_r_def)

lemma upd_r_of_nat: "upd_r xs (int i) v = (if i < length xs then Inr (xs[i := v]) else Inl OutOfBounds)"
  by (simp add: upd_r_def)

lemma upd_r_length: "upd_r xs i v = Inr ys \<Longrightarrow> length ys = length xs"
  by (auto simp: upd_r_def split: if_splits)

lemma deref_Some [simp]: "st p = Some x \<Longrightarrow> deref st p = Inr x"
  by (simp add: deref_def)

lemma deref_None [simp]: "st p = None \<Longrightarrow> deref st p = Inl NullDeref"
  by (simp add: deref_def)

section \<open>Lemmas on words and memory\<close>

lemma unat_lt_2p32 [simp]: "unat (x :: u32) < 4294967296"
  using unsigned_less [of x, where ?'a = nat] by simp

lemma of_int_eq_word_iff:
  "0 \<le> k \<Longrightarrow> k < 4294967296 \<Longrightarrow> (of_int k :: u32) = w \<longleftrightarrow> k = int (unat w)"
proof -
  assume "0 \<le> k" "k < 4294967296"
  then have "uint (of_int k :: u32) = k" by (simp add: uint_word_of_int)
  then show ?thesis by (metis uint_nat word_uint_eq_iff)
qed

lemma sint_small: "unat (w :: u32) < 2147483648 \<Longrightarrow> sint w = int (unat w)"
proof -
  assume h: "unat w < 2147483648"
  have u: "uint w = int (unat w)" by simp
  have "signed_take_bit 31 (uint w) = uint w"
    using h unfolding u by (intro signed_take_bit_int_eq_self) (simp_all del: of_nat_unat)
  then show ?thesis by (simp add: sint_uint)
qed

lemma sint_negative: "2147483648 \<le> unat (w :: u32) \<Longrightarrow> sint w = int (unat w) - 4294967296"
proof -
  assume h: "2147483648 \<le> unat w"
  have u: "uint w = int (unat w)" by simp
  have "sint w = signed_take_bit 31 (uint w - 2 ^ 32)"
    by (simp add: sint_uint signed_take_bit_eq_iff_take_bit_eq take_bit_eq_mod)
  also have "\<dots> = uint w - 2 ^ 32"
    using h unat_lt_2p32 [of w] unfolding u
    by (intro signed_take_bit_int_eq_self) (simp_all del: unat_lt_2p32 of_nat_unat)
  finally show ?thesis by simp
qed

lemma sint_of_int_small: "0 \<le> k \<Longrightarrow> k < 2147483648 \<Longrightarrow> sint (of_int k :: u32) = k"
proof -
  assume k: "0 \<le> k" "k < 2147483648"
  have "uint (of_int k :: u32) = k" using k by (simp add: uint_word_of_int)
  then have u: "int (unat (of_int k :: u32)) = k" by simp
  then have "unat (of_int k :: u32) < 2147483648" using k by linarith
  from sint_small [OF this] u show ?thesis by simp
qed

lemma word_add_neq_small:
  fixes a :: u32
  assumes "i < 4294967296" "j < 4294967296" "i \<noteq> j"
  shows "a + of_nat i \<noteq> a + of_nat j"
proof
  assume "a + of_nat i = a + of_nat j"
  then have "(of_nat i :: u32) = of_nat j" by simp
  then have "unat (of_nat i :: u32) = unat (of_nat j :: u32)" by simp
  with assms show False by (simp add: unat_of_nat)
qed

lemma load32_store32_same [simp, mem_simps]: "load32 (store32 m a v) a = v"
proof -
  have ne: "a \<noteq> a + 1" "a \<noteq> a + 2" "a \<noteq> a + 3" "a + 1 \<noteq> a + 2" "a + 1 \<noteq> a + 3" "a + 2 \<noteq> a + 3"
    by simp_all
  have "load32 (store32 m a v) a = ucast (ucast v :: u8) OR push_bit 8 (ucast (ucast (drop_bit 8 v) :: u8))
     OR push_bit 16 (ucast (ucast (drop_bit 16 v) :: u8)) OR push_bit 24 (ucast (ucast (drop_bit 24 v) :: u8))"
    using ne by (simp add: load32_def store32_def)
  also have "\<dots> = v"
  proof (rule bit_word_eqI)
    fix n assume "n < LENGTH(32)"
    then have "n < 8 \<or> (8 \<le> n \<and> n < 16) \<or> (16 \<le> n \<and> n < 24) \<or> (24 \<le> n \<and> n < 32)" by auto
    then show "bit (ucast (ucast v :: u8) OR push_bit 8 (ucast (ucast (drop_bit 8 v) :: u8))
     OR push_bit 16 (ucast (ucast (drop_bit 16 v) :: u8)) OR push_bit 24 (ucast (ucast (drop_bit 24 v) :: u8)) :: u32) n = bit v n"
      by (elim disjE) (auto simp: bit_simps)
  qed
  finally show ?thesis .
qed

lemma store32_frame: "\<not> in_block a 4 x \<Longrightarrow> store32 m a v x = m x"
proof -
  assume h: "\<not> in_block a 4 x"
  have "x \<noteq> a + k" if "unat k < 4" for k
    using h that by (auto simp: in_block_def)
  from this [of 0] this [of 1] this [of 2] this [of 3] show ?thesis
    by (simp add: store32_def)
qed

lemma load32_cong:
  assumes "\<And>x. in_block a 4 x \<Longrightarrow> m x = m' x"
  shows "load32 m a = load32 m' a"
  using assms [of a] assms [of "a + 1"] assms [of "a + 2"] assms [of "a + 3"]
  by (simp add: load32_def in_block_def)

text \<open>A block that does not wrap around the address space is an interval of addresses.\<close>

lemma in_block_iff:
  assumes "unat a + n \<le> 4294967296"
  shows "in_block a n x \<longleftrightarrow> unat a \<le> unat x \<and> unat x < unat a + n"
  using assms unat_lt_2p32 [of x] unat_lt_2p32 [of a]
  by (auto simp: in_block_def unat_sub_if_size word_size simp del: unat_lt_2p32)

end
