(* ===== verification/Gdt.thy ===== *)
theory Gdt
  imports Kernel_Prelude
begin

text \<open>
  The encoding of segment descriptors \<^verbatim>\<open>src/src/gdt/gdt.c\<close> and the table of \<^verbatim>\<open>src/src/kernel.c\<close>. A raw
  descriptor is its eight bytes. The reading of a raw descriptor by the processor is the
  specification the encoder is proved against.
\<close>

section \<open>Model\<close>

record segment_descriptor =
  seg_base :: u32
  seg_limit :: u32
  seg_type :: u8

abbreviation (input) MAX_20_BITS :: u32 where "MAX_20_BITS \<equiv> 1048575"
abbreviation (input) HIGH_FLAGS_BYTE :: int where "HIGH_FLAGS_BYTE \<equiv> 6"

definition areFirst12BitsOne :: "u32 \<Rightarrow> bool" where
  "areFirst12BitsOne val \<longleftrightarrow> val AND 0xFFF = 0xFFF"

definition convertToPageGranularity :: "u32 \<Rightarrow> u32" where
  "convertToPageGranularity val = drop_bit 12 val"

definition encodeSegmentDescriptor :: "u8 list \<Rightarrow> segment_descriptor \<Rightarrow> u8 list outcome" where
  "encodeSegmentDescriptor raw source =
     (if seg_limit source > MAX_20_BITS \<and> \<not> areFirst12BitsOne (seg_limit source)
      then Inl (Panic (''encodeSegmentDescriptor: Invalid argument'' @ [CHR 0x0A]))
      else
        let big = seg_limit source > MAX_20_BITS;
            lim = (if big then convertToPageGranularity (seg_limit source) else seg_limit source);
            base = seg_base source in
        bind_r (upd_r raw HIGH_FLAGS_BYTE 0x40) (\<lambda>raw.
        bind_r (if big then upd_r raw HIGH_FLAGS_BYTE 0xC0 else Inr raw) (\<lambda>raw.
        bind_r (upd_r raw 0 (ucast (lim AND 0xFF))) (\<lambda>raw.
        bind_r (upd_r raw 1 (ucast (drop_bit 8 lim AND 0xFF))) (\<lambda>raw.
        bind_r (nth_r raw 6) (\<lambda>b6.
        bind_r (upd_r raw 6 (b6 OR ucast (drop_bit 16 lim AND 0x0F))) (\<lambda>raw.
        bind_r (upd_r raw 2 (ucast (base AND 0xFF))) (\<lambda>raw.
        bind_r (upd_r raw 3 (ucast (drop_bit 8 base AND 0xFF))) (\<lambda>raw.
        bind_r (upd_r raw 4 (ucast (drop_bit 16 base AND 0xFF))) (\<lambda>raw.
        bind_r (upd_r raw 7 (ucast (drop_bit 24 base AND 0xFF))) (\<lambda>raw.
        upd_r raw 5 (seg_type source))))))))))))"

text \<open>The loop over the table; \<open>raw\<close> is the array of raw descriptors.\<close>

function to_raw_loop :: "u8 list list \<Rightarrow> segment_descriptor list \<Rightarrow> int \<Rightarrow> int \<Rightarrow> u8 list list outcome" where
  "to_raw_loop raw desc total_entries i =
     (if i < total_entries
      then bind_r (nth_r raw i) (\<lambda>r. bind_r (nth_r desc i) (\<lambda>d.
        bind_r (encodeSegmentDescriptor r d) (\<lambda>r. bind_r (upd_r raw i r) (\<lambda>raw.
          to_raw_loop raw desc total_entries (i + 1)))))
      else Inr raw)"
  by pat_completeness auto
termination
  by (relation "measure (\<lambda>(raw, desc, n, i). nat (n - i))") auto

declare to_raw_loop.simps [simp del]

definition segment_descriptor_to_raw :: "u8 list list \<Rightarrow> segment_descriptor list \<Rightarrow> int \<Rightarrow> u8 list list outcome" where
  "segment_descriptor_to_raw raw desc total_entries = to_raw_loop raw desc total_entries 0"

text \<open>The table of the kernel; \<open>tss\<close> is the address of the task state segment.\<close>

definition gdt :: "u32 \<Rightarrow> segment_descriptor list" where
  "gdt tss =
    [\<lparr>seg_base = 0, seg_limit = 0, seg_type = 0\<rparr>,
     \<lparr>seg_base = 0, seg_limit = 0xffffffff, seg_type = 0x9A\<rparr>,
     \<lparr>seg_base = 0, seg_limit = 0xffffffff, seg_type = 0x92\<rparr>,
     \<lparr>seg_base = 0, seg_limit = 0xffffffff, seg_type = 0xF8\<rparr>,
     \<lparr>seg_base = 0, seg_limit = 0xffffffff, seg_type = 0xF2\<rparr>,
     \<lparr>seg_base = tss, seg_limit = 108, seg_type = 0xE9\<rparr>]"

section \<open>How the processor reads a descriptor\<close>

definition cpu_base :: "u8 list \<Rightarrow> u32" where
  "cpu_base r = ucast (r ! 2) OR push_bit 8 (ucast (r ! 3)) OR push_bit 16 (ucast (r ! 4)) OR push_bit 24 (ucast (r ! 7))"

definition cpu_limit20 :: "u8 list \<Rightarrow> u32" where
  "cpu_limit20 r = ucast (r ! 0) OR push_bit 8 (ucast (r ! 1)) OR push_bit 16 (ucast (r ! 6 AND 0x0F))"

text \<open>With the granularity flag, bit 7 of byte 6, the limit counts pages and its low 12 bits are one.\<close>

definition cpu_limit :: "u8 list \<Rightarrow> u32" where
  "cpu_limit r = (if bit (r ! 6) 7 then push_bit 12 (cpu_limit20 r) OR 0xFFF else cpu_limit20 r)"

section \<open>Correctness\<close>


lemma masks: "(0xFF :: u32) = mask 8" "(0x0F :: u32) = mask 4" "(0xFFF :: u32) = mask 12" "(0x0F :: u8) = mask 4"
  by (simp_all add: mask_eq_exp_minus_1)

lemma byte_of_mask: "ucast (ucast (w AND 0xFF :: u32) :: u8) = (w AND 0xFF :: u32)"
  unfolding masks by (rule bit_word_eqI) (auto simp: bit_simps)

lemma byte_cases:
  obtains "n < 8" | k where "n = 8 + k" "k < (8 :: nat)" | k where "n = 16 + k" "k < 8" | k where "n = 24 + k"
proof -
  have "n < 8 \<or> (\<exists>k. n = 8 + k \<and> k < 8) \<or> (\<exists>k. n = 16 + k \<and> k < 8) \<or> (\<exists>k. n = 24 + k)"
    by presburger
  with that show thesis by blast
qed

lemma or_bytes:
  "(w AND 0xFF) OR push_bit 8 (drop_bit 8 w AND 0xFF) OR push_bit 16 (drop_bit 16 w AND 0xFF)
     OR push_bit 24 (drop_bit 24 w AND 0xFF) = (w :: u32)"
proof (rule bit_word_eqI)
  fix n assume n: "n < LENGTH(32)"
  show "bit ((w AND 0xFF) OR push_bit 8 (drop_bit 8 w AND 0xFF) OR push_bit 16 (drop_bit 16 w AND 0xFF)
     OR push_bit 24 (drop_bit 24 w AND 0xFF)) n = bit w n"
    using n unfolding masks by (cases n rule: byte_cases) (auto simp: bit_simps)
qed

lemma high_bits_zero:
  assumes "w \<le> (0xFFFFF :: u32)" "20 \<le> n"
  shows "\<not> bit w n"
proof -
  have "unat w < 2 ^ 20" using assms(1) by (simp add: word_le_nat_alt)
  then have "take_bit 20 (unat w) = unat w" by (simp add: take_bit_nat_eq_self)
  then have "unat (take_bit 20 w) = unat w" by (simp add: unsigned_take_bit_eq)
  then have "take_bit 20 w = w" by (simp only: word_unat_eq_iff)
  then show ?thesis using assms(2) by (metis bit_take_bit_iff not_le)
qed

lemma or_limit20:
  assumes "w \<le> 0xFFFFF"
  shows "(w AND 0xFF) OR push_bit 8 (drop_bit 8 w AND 0xFF) OR push_bit 16 (drop_bit 16 w AND 0x0F) = (w :: u32)"
proof (rule bit_word_eqI)
  fix n assume n: "n < LENGTH(32)"
  show "bit ((w AND 0xFF) OR push_bit 8 (drop_bit 8 w AND 0xFF) OR push_bit 16 (drop_bit 16 w AND 0x0F)) n = bit w n"
    using n high_bits_zero [OF assms, of n] unfolding masks
    by (cases n rule: byte_cases) (auto simp: bit_simps not_le [symmetric])
qed

lemma drop_12_limit: "drop_bit 12 (w :: u32) \<le> 0xFFFFF"
proof -
  have "unat w < 1048576 * 4096" using unsigned_less [of w] by simp
  then have "unat w div 4096 < 1048576" by (rule less_mult_imp_div_less)
  moreover have "unat (drop_bit 12 w) = unat w div 4096" by (simp add: drop_bit_eq_div unat_div)
  ultimately have "unat (drop_bit 12 w) \<le> 1048575" by linarith
  then show ?thesis by (simp only: word_le_nat_alt unat_numeral) simp
qed

lemma push_drop_12:
  assumes "w AND 0xFFF = 0xFFF"
  shows "push_bit 12 (drop_bit 12 w) OR 0xFFF = (w :: u32)"
proof (rule bit_word_eqI)
  fix n assume n: "n < LENGTH(32)"
  have "bit (w AND mask 12) n = bit (mask 12 :: u32) n" using assms unfolding masks by simp
  with n show "bit (push_bit 12 (drop_bit 12 w) OR 0xFFF) n = bit w n"
    unfolding masks by (auto simp: bit_simps)
qed

text \<open>The byte with the flags keeps the flag and takes the top four bits of the limit.\<close>

lemma flags_byte:
  "ucast (((0x40 :: u8) OR ucast (x AND 0x0F :: u32)) AND 0x0F) = (x AND 0x0F :: u32)"
  "ucast (((0xC0 :: u8) OR ucast (x AND 0x0F :: u32)) AND 0x0F) = (x AND 0x0F :: u32)"
  "\<not> bit ((0x40 :: u8) OR ucast (x AND 0x0F :: u32)) 7"
  "bit ((0xC0 :: u8) OR ucast (x AND 0x0F :: u32)) 7"
proof -
  have 40: "(0x40 :: u8) AND mask 4 = 0" "(0xC0 :: u8) AND mask 4 = 0" by (simp_all add: mask_eq_exp_minus_1)
  have z: "ucast ((y OR ucast (x AND mask 4)) AND mask 4) = x AND mask 4" if "y AND mask 4 = 0" for y :: u8
  proof (rule bit_word_eqI)
    fix n assume "n < LENGTH(32)"
    have "bit (y AND mask 4) n = False" using that by simp
    then show "bit (ucast ((y OR ucast (x AND mask 4)) AND mask 4) :: u32) n = bit (x AND mask 4) n"
      by (auto simp: bit_simps)
  qed
  show "ucast (((0x40 :: u8) OR ucast (x AND 0x0F :: u32)) AND 0x0F) = (x AND 0x0F :: u32)"
    unfolding masks by (rule z [OF 40(1)])
  show "ucast (((0xC0 :: u8) OR ucast (x AND 0x0F :: u32)) AND 0x0F) = (x AND 0x0F :: u32)"
    unfolding masks by (rule z [OF 40(2)])
  show "\<not> bit ((0x40 :: u8) OR ucast (x AND 0x0F :: u32)) 7"
    unfolding masks by (simp add: bit_simps)
  show "bit ((0xC0 :: u8) OR ucast (x AND 0x0F :: u32)) 7"
    unfolding masks by (simp add: bit_simps)
qed

lemma length_8: "length xs = 8 \<Longrightarrow> \<exists>a b c d e f g h. xs = [a, b, c, d, e, f, g, h]"
  by (auto simp: length_Suc_conv eval_nat_numeral)

text \<open>The bytes the encoder writes, in order.\<close>

lemma encode_bytes:
  assumes "length raw = 8" "seg_limit d > MAX_20_BITS \<longrightarrow> areFirst12BitsOne (seg_limit d)"
  shows "encodeSegmentDescriptor raw d =
    (let big = seg_limit d > MAX_20_BITS; lim = (if big then drop_bit 12 (seg_limit d) else seg_limit d); base = seg_base d in
     Inr [ucast (lim AND 0xFF), ucast (drop_bit 8 lim AND 0xFF), ucast (base AND 0xFF), ucast (drop_bit 8 base AND 0xFF),
       ucast (drop_bit 16 base AND 0xFF), seg_type d,
       (if big then 0xC0 else 0x40) OR ucast (drop_bit 16 lim AND 0x0F), ucast (drop_bit 24 base AND 0xFF)])"
proof -
  obtain a b c e f g h i where r: "raw = [a, b, c, e, f, g, h, i]" using length_8 [OF assms(1)] by blast
  show ?thesis using assms(2)
    unfolding r encodeSegmentDescriptor_def convertToPageGranularity_def Let_def
    by (simp add: bind_r_def upd_r_def nth_r_def del: drop_bit_numeral_minus_bit0)
qed

text \<open>A descriptor is accepted, and eight bytes read as a descriptor.\<close>

definition encodable :: "segment_descriptor \<Rightarrow> bool" where
  "encodable d \<longleftrightarrow> (seg_limit d \<le> MAX_20_BITS \<or> areFirst12BitsOne (seg_limit d))"

definition reads_as :: "u8 list \<Rightarrow> segment_descriptor \<Rightarrow> bool" where
  "reads_as r d \<longleftrightarrow> length r = 8 \<and> cpu_base r = seg_base d \<and> cpu_limit r = seg_limit d \<and> r ! 5 = seg_type d"

lemma encode_reads_as:
  assumes "length raw = 8" "encodable d"
  shows "\<exists>r. encodeSegmentDescriptor raw d = Inr r \<and> reads_as r d"
proof -
  have ok: "seg_limit d > MAX_20_BITS \<longrightarrow> areFirst12BitsOne (seg_limit d)"
    using assms(2) by (auto simp: encodable_def)
  define lim where "lim = (if seg_limit d > MAX_20_BITS then drop_bit 12 (seg_limit d) else seg_limit d)"
  define r where "r = [ucast (lim AND 0xFF), ucast (drop_bit 8 lim AND 0xFF), ucast (seg_base d AND 0xFF),
    ucast (drop_bit 8 (seg_base d) AND 0xFF), ucast (drop_bit 16 (seg_base d) AND 0xFF), seg_type d,
    (if seg_limit d > MAX_20_BITS then 0xC0 else 0x40) OR ucast (drop_bit 16 lim AND 0x0F),
    ucast (drop_bit 24 (seg_base d) AND 0xFF) :: u8]"
  have enc: "encodeSegmentDescriptor raw d = Inr r"
    unfolding encode_bytes [OF assms(1) ok] r_def lim_def Let_def by simp
  have base: "cpu_base r = seg_base d"
    unfolding cpu_base_def r_def by (simp add: byte_of_mask or_bytes del: push_bit_and)
  have "lim \<le> 0xFFFFF" unfolding lim_def using drop_12_limit [of "seg_limit d"] by auto
  then have l20: "cpu_limit20 r = lim"
    unfolding cpu_limit20_def r_def by (simp add: byte_of_mask flags_byte or_limit20 del: push_bit_and)
  have "cpu_limit r = seg_limit d"
  proof (cases "seg_limit d > MAX_20_BITS")
    case True
    then show ?thesis using ok push_drop_12 [of "seg_limit d"]
      unfolding cpu_limit_def l20 by (simp add: r_def lim_def flags_byte areFirst12BitsOne_def)
  next
    case False
    then show ?thesis unfolding cpu_limit_def l20 by (simp add: r_def lim_def flags_byte)
  qed
  with enc base show ?thesis by (auto simp: r_def reads_as_def)
qed

lemma encode_panics:
  "\<not> encodable d \<Longrightarrow>
    encodeSegmentDescriptor raw d = Inl (Panic (''encodeSegmentDescriptor: Invalid argument'' @ [CHR 0x0A]))"
  by (auto simp: encodable_def encodeSegmentDescriptor_def)

lemma to_raw_loop_reads:
  assumes "length raw = n" "length desc = n" "\<forall>r\<in>set raw. length r = 8" "\<forall>d\<in>set desc. encodable d" "i \<le> n"
    "\<forall>j<i. reads_as (raw ! j) (desc ! j)"
  shows "\<exists>raw'. to_raw_loop raw desc (int n) (int i) = Inr raw' \<and> list_all2 reads_as raw' desc"
  using assms
proof (induction "n - i" arbitrary: raw i)
  case 0
  then show ?case by (subst to_raw_loop.simps) (auto simp: list_all2_conv_all_nth)
next
  case (Suc k)
  then have i: "i < n" by linarith
  obtain r where r: "encodeSegmentDescriptor (raw ! i) (desc ! i) = Inr r" "reads_as r (desc ! i)"
    using encode_reads_as [of "raw ! i" "desc ! i"] Suc.prems i by auto
  have len: "\<forall>x\<in>set (raw[i := r]). length x = 8"
    using Suc.prems(3) r(2) set_update_subset_insert [of raw i r] by (auto simp: reads_as_def)
  have reads: "\<forall>j<Suc i. reads_as (raw[i := r] ! j) (desc ! j)"
    using Suc.prems r(2) i by (auto simp: less_Suc_eq nth_list_update)
  have k: "k = n - Suc i" using Suc.hyps(2) by linarith
  obtain raw' where "to_raw_loop (raw[i := r]) desc (int n) (int (Suc i)) = Inr raw'" "list_all2 reads_as raw' desc"
    using Suc.hyps(1) [of "Suc i" "raw[i := r]"] k Suc.prems i len reads by auto
  moreover have "to_raw_loop raw desc (int n) (int i) = to_raw_loop (raw[i := r]) desc (int n) (int (Suc i))"
    using i Suc.prems r(1) by (subst to_raw_loop.simps) (simp add: bind_r_def nth_r_of_nat upd_r_of_nat add.commute)
  ultimately show ?case by simp
qed

text \<open>
  C25. Segment descriptors: for every target of eight bytes, the encoder panics exactly on a limit
  above 20 bits whose low twelve bits are not all one; otherwise the processor reads the base,
  the limit and the access byte of the source back from the eight bytes written.
\<close>

theorem encode_descriptor_roundtrip:
  assumes "length raw = 8"
  shows "if seg_limit d > 0xFFFFF \<and> \<not> areFirst12BitsOne (seg_limit d)
    then encodeSegmentDescriptor raw d = Inl (Panic (''encodeSegmentDescriptor: Invalid argument'' @ [CHR 0x0A]))
    else \<exists>r. encodeSegmentDescriptor raw d = Inr r \<and> length r = 8 \<and>
      cpu_base r = seg_base d \<and> cpu_limit r = seg_limit d \<and> r ! 5 = seg_type d"
  using encode_panics [of d raw] encode_reads_as [OF assms, of d] by (auto simp: encodable_def reads_as_def not_less)

theorem encode_descriptor_roundtrip_witness:
  "\<exists>r. encodeSegmentDescriptor (replicate 8 0) (gdt 0 ! 1) = Inr r \<and> length r = 8 \<and>
     cpu_base r = 0 \<and> cpu_limit r = 0xFFFFFFFF \<and> r ! 5 = 0x9A"
  using encode_descriptor_roundtrip [of "replicate 8 0" "gdt 0 ! 1"]
  by (simp add: gdt_def areFirst12BitsOne_def)

text \<open>
  C26. The table of the kernel: wherever the task state segment is, converting the six descriptors
  into the zeroed raw table succeeds, and the processor reads from the six entries the null
  segment, four flat 4 GiB segments and the task state segment with their access bytes.
\<close>

theorem kernel_gdt_reads_back:
  "\<exists>raw. segment_descriptor_to_raw (replicate 6 (replicate 8 0)) (gdt tss) 6 = Inr raw \<and>
     map cpu_base raw = [0, 0, 0, 0, 0, tss] \<and>
     map cpu_limit raw = [0, 0xFFFFFFFF, 0xFFFFFFFF, 0xFFFFFFFF, 0xFFFFFFFF, 108] \<and>
     map (\<lambda>r. r ! 5) raw = [0, 0x9A, 0x92, 0xF8, 0xF2, 0xE9]"
proof -
  obtain raw where "segment_descriptor_to_raw (replicate 6 (replicate 8 0)) (gdt tss) 6 = Inr raw"
    and "list_all2 reads_as raw (gdt tss)"
    using to_raw_loop_reads [of "replicate 6 (replicate 8 0)" 6 "gdt tss" 0]
    by (auto simp: segment_descriptor_to_raw_def gdt_def encodable_def areFirst12BitsOne_def)
  then show ?thesis by (auto simp: gdt_def list_all2_Cons2 reads_as_def)
qed

end
