(* ===== verification/C_Strings.thy ===== *)
theory C_Strings
  imports Kernel_Prelude
begin

text \<open>
  The C runtime of the kernel: \<^verbatim>\<open>src/src/memory/memory.c\<close> and \<^verbatim>\<open>src/src/string/string.c\<close> (the user
  library \<^verbatim>\<open>user_programs/stdlib/src\<close> has textual copies of both files). A destination buffer
  is a list updated by index; a source pointer is the suffix it points to. \<^verbatim>\<open>char\<close> is signed on
  the target, so comparisons of \<^verbatim>\<open>char\<close> values go through \<open>sint\<close>.
\<close>

section \<open>memory.c\<close>

function memset_loop :: "u8 list \<Rightarrow> u8 \<Rightarrow> nat \<Rightarrow> nat \<Rightarrow> u8 list outcome" where
  "memset_loop s c n i =
     (if i < n then bind_r (upd_r s (int i) c) (\<lambda>s. memset_loop s c n (Suc i)) else Inr s)"
  by pat_completeness auto
termination
  by (relation "measure (\<lambda>(s, c, n, i). n - i)") auto

definition memset :: "u8 list \<Rightarrow> int \<Rightarrow> nat \<Rightarrow> u8 list outcome" where
  "memset s c n = memset_loop s (of_int c) n 0"

text \<open>The same loop through a physical address: the kernel runs on an identity mapping.\<close>

function memset_mem_loop :: "mem \<Rightarrow> u32 \<Rightarrow> u8 \<Rightarrow> nat \<Rightarrow> nat \<Rightarrow> mem" where
  "memset_mem_loop m s c n i =
     (if i < n then memset_mem_loop (m(s + of_nat i := c)) s c n (Suc i) else m)"
  by pat_completeness auto
termination
  by (relation "measure (\<lambda>(m, s, c, n, i). n - i)") auto

definition memset_mem :: "mem \<Rightarrow> u32 \<Rightarrow> int \<Rightarrow> nat \<Rightarrow> mem" where
  "memset_mem m s c n = memset_mem_loop m s (of_int c) n 0"

fun memcmp :: "u8 list \<Rightarrow> u8 list \<Rightarrow> nat \<Rightarrow> int outcome" where
  "memcmp c1 c2 0 = Inr 0"
| "memcmp (a # c1) (b # c2) (Suc n) =
     (if a \<noteq> b then Inr (if sint a < sint b then -1 else 1) else memcmp c1 c2 n)"
| "memcmp _ _ (Suc n) = Inl OutOfBounds"

fun memcpy_loop :: "u8 list \<Rightarrow> nat \<Rightarrow> u8 list \<Rightarrow> nat \<Rightarrow> u8 list outcome" where
  "memcpy_loop dest d src 0 = Inr dest"
| "memcpy_loop dest d [] (Suc n) = Inl OutOfBounds"
| "memcpy_loop dest d (b # src) (Suc n) =
     bind_r (upd_r dest (int d) b) (\<lambda>dest. memcpy_loop dest (Suc d) src n)"

definition memcpy :: "u8 list \<Rightarrow> u8 list \<Rightarrow> nat \<Rightarrow> u8 list outcome" where
  "memcpy dest src n = memcpy_loop dest 0 src n"

section \<open>string.c\<close>

definition tolower :: "u8 \<Rightarrow> u8" where
  "tolower c1 = (if sint c1 \<ge> 65 \<and> sint c1 \<le> 90 then c1 + 32 else c1)"

fun strlen :: "u8 list \<Rightarrow> int outcome" where
  "strlen [] = Inl OutOfBounds"
| "strlen (c # cs) = (if c \<noteq> 0 then bind_r (strlen cs) (\<lambda>i. Inr (i + 1)) else Inr 0)"

function strnlen_loop :: "u8 list \<Rightarrow> nat \<Rightarrow> nat \<Rightarrow> int outcome" where
  "strnlen_loop s maxlen i =
     (if i < maxlen
      then bind_r (nth_r s (int i)) (\<lambda>c. if c = 0 then Inr (int i) else strnlen_loop s maxlen (Suc i))
      else Inr (int i))"
  by pat_completeness auto
termination
  by (relation "measure (\<lambda>(s, m, i). m - i)") auto

definition strnlen :: "u8 list \<Rightarrow> nat \<Rightarrow> int outcome" where
  "strnlen s maxlen = strnlen_loop s maxlen 0"

function strnlen_terminator_loop :: "u8 list \<Rightarrow> nat \<Rightarrow> u8 \<Rightarrow> nat \<Rightarrow> int outcome" where
  "strnlen_terminator_loop s maxlen terminator i =
     (if i < maxlen
      then bind_r (nth_r s (int i)) (\<lambda>c. if c = 0 \<or> c = terminator then Inr (int i)
             else strnlen_terminator_loop s maxlen terminator (Suc i))
      else Inr (int i))"
  by pat_completeness auto
termination
  by (relation "measure (\<lambda>(s, m, t, i). m - i)") auto

definition strnlen_terminator :: "u8 list \<Rightarrow> nat \<Rightarrow> u8 \<Rightarrow> int outcome" where
  "strnlen_terminator s maxlen terminator = strnlen_terminator_loop s maxlen terminator 0"

definition is_digit :: "u8 \<Rightarrow> bool" where
  "is_digit c \<longleftrightarrow> sint c > 47 \<and> sint c < 58"

definition ctoi :: "u8 \<Rightarrow> int" where
  "ctoi c = (if is_digit c then sint c - 48 else -1)"

fun strcpy_loop :: "u8 list \<Rightarrow> nat \<Rightarrow> u8 list \<Rightarrow> u8 list outcome" where
  "strcpy_loop dest tmp [] = Inl OutOfBounds"
| "strcpy_loop dest tmp (c # src) =
     (if c \<noteq> 0 then bind_r (upd_r dest (int tmp) c) (\<lambda>dest. strcpy_loop dest (Suc tmp) src)
      else upd_r dest (int tmp) 0)"

definition strcpy :: "u8 list \<Rightarrow> u8 list \<Rightarrow> u8 list outcome" where
  "strcpy dest src = strcpy_loop dest 0 src"

fun strncmp :: "u8 list \<Rightarrow> u8 list \<Rightarrow> nat \<Rightarrow> int outcome" where
  "strncmp s1 s2 0 = Inr 0"
| "strncmp (u1 # s1) (u2 # s2) (Suc n) =
     (if u1 \<noteq> u2 then Inr (uint u1 - uint u2)
      else if u1 = 0 then Inr 0 else strncmp s1 s2 n)"
| "strncmp _ _ (Suc n) = Inl OutOfBounds"

fun strnicmp :: "u8 list \<Rightarrow> u8 list \<Rightarrow> nat \<Rightarrow> int outcome" where
  "strnicmp s1 s2 0 = Inr 0"
| "strnicmp (u1 # s1) (u2 # s2) (Suc n) =
     (if u1 \<noteq> u2 \<and> tolower u1 \<noteq> tolower u2 then Inr (sint (tolower u1) - sint (tolower u2))
      else if u1 = 0 then Inr 0 else strnicmp s1 s2 n)"
| "strnicmp _ _ (Suc n) = Inl OutOfBounds"

text \<open>
  The loop of \<^verbatim>\<open>strncpy\<close> stops at \<^verbatim>\<open>n\<close> or at the null byte, and then writes the terminator at
  the index it stopped at: up to \<^verbatim>\<open>n + 1\<close> bytes of \<^verbatim>\<open>dest\<close> are written.
\<close>

function strncpy_loop :: "u8 list \<Rightarrow> u8 list \<Rightarrow> nat \<Rightarrow> nat \<Rightarrow> (nat \<times> u8 list) outcome" where
  "strncpy_loop dest src n i =
     (if i < n
      then bind_r (nth_r src (int i)) (\<lambda>c.
        if c = 0 then Inr (i, dest)
        else bind_r (upd_r dest (int i) c) (\<lambda>dest. strncpy_loop dest src n (Suc i)))
      else Inr (i, dest))"
  by pat_completeness auto
termination
  by (relation "measure (\<lambda>(d, s, n, i). n - i)") auto

definition strncpy :: "u8 list \<Rightarrow> u8 list \<Rightarrow> nat \<Rightarrow> u8 list outcome" where
  "strncpy dest src n = bind_r (strncpy_loop dest src n 0) (\<lambda>(i, dest). upd_r dest (int i) 0)"

declare memset_loop.simps [simp del] memset_mem_loop.simps [simp del] strnlen_loop.simps [simp del]
  strnlen_terminator_loop.simps [simp del] strncpy_loop.simps [simp del]

text \<open>A string literal.\<close>

definition c_string :: "string \<Rightarrow> u8 list" where
  "c_string str = map of_char str @ [0]"

text \<open>\<open>cstr bs\<close>: the bytes of the C string that \<open>bs\<close> points to, up to the null byte.\<close>

definition cstr :: "u8 list \<Rightarrow> u8 list" where
  "cstr bs = takeWhile (\<lambda>c. c \<noteq> 0) bs"

definition is_cstr :: "u8 list \<Rightarrow> bool" where
  "is_cstr bs \<longleftrightarrow> 0 \<in> set bs"

section \<open>Behaviour\<close>

lemma memset_loop_eq:
  assumes "i \<le> n"
  shows "memset_loop s c n i =
    (if n \<le> length s then Inr (take i s @ replicate (n - i) c @ drop n s)
     else if i = n then Inr s else Inl OutOfBounds)"
  using assms
proof (induction s c n i rule: memset_loop.induct)
  case (1 s c n i)
  show ?case
  proof (cases "i < n")
    case True
    show ?thesis
    proof (cases "i < length s")
      case lt: True
      have "replicate (n - i) c = c # replicate (n - Suc i) c"
        using True by (simp flip: replicate_Suc add: Suc_diff_Suc)
      then show ?thesis
        using True lt 1
        by (subst memset_loop.simps) (auto simp: upd_r_of_nat take_Suc_conv_app_nth)
    next
      case False
      with True show ?thesis by (subst memset_loop.simps) (simp add: upd_r_of_nat)
    qed
  next
    case False
    with 1(2) show ?thesis by (subst memset_loop.simps) auto
  qed
qed

lemma memset_eq:
  "memset s c n = (if n \<le> length s then Inr (replicate n (of_int c) @ drop n s) else Inl OutOfBounds)"
  by (auto simp: memset_def memset_loop_eq)

lemma memset_mem_loop_eq:
  assumes "n \<le> 4294967296" "i \<le> n"
  shows "memset_mem_loop m s c n i x =
    (if i \<le> unat (x - s) \<and> unat (x - s) < n then c else m x)"
  using assms
proof (induction m s c n i rule: memset_mem_loop.induct)
  case (1 m s c n i)
  show ?case
  proof (cases "i < n")
    case True
    have x: "x = s + of_nat i \<longleftrightarrow> unat (x - s) = i"
      using True 1(2) by (auto simp: unat_of_nat)
    have IH: "memset_mem_loop (m(s + of_nat i := c)) s c n (Suc i) x =
      (if Suc i \<le> unat (x - s) \<and> unat (x - s) < n then c else (m(s + of_nat i := c)) x)"
      using True 1(2) by (intro 1(1)) auto
    have "memset_mem_loop m s c n i x = memset_mem_loop (m(s + of_nat i := c)) s c n (Suc i) x"
      using True by (subst memset_mem_loop.simps) (simp only: if_True)
    with IH x True show ?thesis by (simp only: fun_upd_apply) auto
  next
    case False
    with 1(2,3) show ?thesis by (subst memset_mem_loop.simps) auto
  qed
qed

lemma memset_mem_eq:
  "n \<le> 4294967296 \<Longrightarrow> memset_mem m s c n x = (if in_block s n x then of_int c else m x)"
  by (simp add: memset_mem_def memset_mem_loop_eq in_block_def)

lemma cstr_Cons [simp]: "cstr (c # cs) = (if c = 0 then [] else c # cstr cs)"
  by (simp add: cstr_def)

lemma cstr_Nil [simp]: "cstr [] = []"
  by (simp add: cstr_def)

lemma is_cstr_Cons [simp]: "is_cstr (c # cs) \<longleftrightarrow> c = 0 \<or> is_cstr cs"
  by (auto simp: is_cstr_def)

lemma is_cstr_Nil [simp]: "\<not> is_cstr []"
  by (simp add: is_cstr_def)

lemma cstr_no_null: "0 \<notin> set (cstr s)"
  by (auto simp: cstr_def dest: set_takeWhileD)

lemma cstr_append_null [simp]: "0 \<notin> set xs \<Longrightarrow> cstr (xs @ 0 # ys) = xs"
  by (induction xs) auto

lemma cstr_split: "is_cstr s \<Longrightarrow> \<exists>ys. s = cstr s @ 0 # ys"
  by (induction s) auto

lemma length_cstr_le: "length (cstr s) \<le> length s"
  by (simp add: cstr_def length_takeWhile_le)

lemma length_cstr_less: "is_cstr s \<Longrightarrow> length (cstr s) < length s"
  by (induction s) auto

lemma cstr_nth: "i < length (cstr s) \<Longrightarrow> s ! i = cstr s ! i \<and> s ! i \<noteq> 0"
proof (induction s arbitrary: i)
  case (Cons a s)
  then show ?case using Cons.IH [of "i - 1"] by (cases i) (simp_all split: if_splits)
qed simp

lemma cstr_nth_end: "length (cstr s) < length s \<Longrightarrow> s ! length (cstr s) = 0"
  by (induction s) auto

lemma strlen_eq: "strlen s = (if is_cstr s then Inr (int (length (cstr s))) else Inl OutOfBounds)"
  by (induction s) auto

lemma strnlen_loop_eq:
  assumes "i \<le> n" "i \<le> length (cstr s)" "is_cstr s \<or> n \<le> length s"
  shows "strnlen_loop s n i = Inr (int (min n (length (cstr s))))"
  using assms
proof (induction s n i rule: strnlen_loop.induct)
  case (1 s n i)
  show ?case
  proof (cases "i < n \<and> i < length (cstr s)")
    case True
    then have "s ! i \<noteq> 0" "i < length s" using cstr_nth [of i s] length_cstr_le [of s] by auto
    then show ?thesis using 1 True by (subst strnlen_loop.simps) (auto simp: nth_r_of_nat)
  next
    case False
    show ?thesis
    proof (cases "i < n")
      case lt: True
      then have "i = length (cstr s)" using False 1(3) by simp
      moreover from this have "i < length s" using 1(4) lt length_cstr_less by fastforce
      ultimately show ?thesis using lt cstr_nth_end [of s]
        by (subst strnlen_loop.simps) (auto simp: nth_r_of_nat)
    next
      case ge: False
      with 1 show ?thesis by (subst strnlen_loop.simps) auto
    qed
  qed
qed

lemma strnlen_eq: "is_cstr s \<or> n \<le> length s \<Longrightarrow> strnlen s n = Inr (int (min n (length (cstr s))))"
  by (simp add: strnlen_def strnlen_loop_eq)

lemma nth_prefix_P: "i < length (takeWhile P s) \<Longrightarrow> P (s ! i)"
  by (metis nth_mem set_takeWhileD takeWhile_nth)

lemma length_prefix_less: "x \<in> set s \<Longrightarrow> \<not> P x \<Longrightarrow> length (takeWhile P s) < length s"
  by (induction s) auto

lemma strnlen_terminator_loop_eq:
  assumes "Q = (\<lambda>c. c \<noteq> 0 \<and> c \<noteq> t)" "i \<le> n" "i \<le> length (takeWhile Q s)" "is_cstr s \<or> n \<le> length s"
  shows "strnlen_terminator_loop s n t i = Inr (int (min n (length (takeWhile Q s))))"
  using assms(2-4)
proof (induction s n t\<equiv>t i rule: strnlen_terminator_loop.induct)
  case (1 s n i)
  have kl: "length (takeWhile Q s) \<le> length s" by (rule length_takeWhile_le)
  show ?case
  proof (cases "i < n \<and> i < length (takeWhile Q s)")
    case True
    then have q: "\<not> (s ! i = 0 \<or> s ! i = t)" using nth_prefix_P [of i Q s] assms(1) by simp
    have "strnlen_terminator_loop s n t (Suc i) = Inr (int (min n (length (takeWhile Q s))))"
      using True kl q 1(2-4) by (intro 1(1)) (auto simp: nth_r_of_nat)
    then show ?thesis using True kl q
      by (subst strnlen_terminator_loop.simps) (simp add: nth_r_of_nat)
  next
    case False
    show ?thesis
    proof (cases "i < n")
      case lt: True
      then have i: "i = length (takeWhile Q s)" using False 1(3) by simp
      have l: "i < length s" using 1(4) lt i length_prefix_less [of 0 s Q] assms(1)
        by (auto simp: is_cstr_def)
      then have "s ! i = 0 \<or> s ! i = t" using nth_length_takeWhile [of Q s] i assms(1) by auto
      with lt i l show ?thesis
        by (subst strnlen_terminator_loop.simps) (simp add: nth_r_of_nat)
    next
      case ge: False
      with 1(2-4) show ?thesis by (subst strnlen_terminator_loop.simps) simp
    qed
  qed
qed

lemma strnlen_terminator_eq:
  "is_cstr s \<or> n \<le> length s \<Longrightarrow>
    strnlen_terminator s n t = Inr (int (min n (length (takeWhile (\<lambda>c. c \<noteq> 0 \<and> c \<noteq> t) s))))"
  by (simp add: strnlen_terminator_def strnlen_terminator_loop_eq [OF refl])

lemma memcpy_loop_eq:
  "d + n \<le> length dest \<Longrightarrow> n \<le> length src \<Longrightarrow>
    memcpy_loop dest d src n = Inr (take d dest @ take n src @ drop (d + n) dest)"
proof (induction dest d src n rule: memcpy_loop.induct)
  case (3 dest d b src n)
  then show ?case by (simp add: upd_r_of_nat take_Suc_conv_app_nth)
qed auto

lemma memcpy_eq:
  "n \<le> length dest \<Longrightarrow> n \<le> length src \<Longrightarrow> memcpy dest src n = Inr (take n src @ drop n dest)"
  by (simp add: memcpy_def memcpy_loop_eq)

lemma strcpy_loop_eq:
  "is_cstr src \<Longrightarrow> d + length (cstr src) < length dest \<Longrightarrow>
    strcpy_loop dest d src = Inr (take d dest @ cstr src @ 0 # drop (Suc (d + length (cstr src))) dest)"
proof (induction dest d src rule: strcpy_loop.induct)
  case (2 dest d c src)
  show ?case
  proof (cases "c = 0")
    case True
    with 2 show ?thesis by (simp add: upd_r_of_nat upd_conv_take_nth_drop)
  next
    case False
    with 2 show ?thesis by (simp add: upd_r_of_nat take_Suc_conv_app_nth)
  qed
qed simp

lemma strcpy_eq:
  "is_cstr src \<Longrightarrow> length (cstr src) < length dest \<Longrightarrow>
    strcpy dest src = Inr (cstr src @ 0 # drop (Suc (length (cstr src))) dest)"
  by (simp add: strcpy_def strcpy_loop_eq)

lemma strncpy_loop_eq:
  assumes "i \<le> n" "i \<le> length (cstr src)" "is_cstr src \<or> n \<le> length src" "min n (length (cstr src)) \<le> length dest"
    "take i dest = take i src"
  shows "strncpy_loop dest src n i = (let k = min n (length (cstr src)) in Inr (k, take k src @ drop k dest))"
  using assms
proof (induction dest src n i rule: strncpy_loop.induct)
  case (1 dest src n i)
  have all: "take i src @ drop i dest = dest" using 1(6) by (metis append_take_drop_id)
  show ?case
  proof (cases "i < n \<and> i < length (cstr src)")
    case True
    then have s: "src ! i \<noteq> 0" "i < length src" using cstr_nth [of i src] length_cstr_le [of src] by auto
    have d: "i < length dest" using True 1(5) by auto
    then have t: "take (Suc i) (dest[i := src ! i]) = take (Suc i) src"
      using s 1(6) by (simp add: take_Suc_conv_app_nth)
    have "strncpy_loop (dest[i := src ! i]) src n (Suc i) =
      (let k = min n (length (cstr src)) in Inr (k, take k src @ drop k (dest[i := src ! i])))"
      using True s d t 1(4,5) by (intro 1(1)) (auto simp: nth_r_of_nat upd_r_of_nat)
    moreover have "drop (min n (length (cstr src))) (dest[i := src ! i]) = drop (min n (length (cstr src))) dest"
      using True by simp
    ultimately show ?thesis
      using True s d by (subst strncpy_loop.simps) (simp add: nth_r_of_nat upd_r_of_nat)
  next
    case False
    show ?thesis
    proof (cases "i < n")
      case lt: True
      then have i: "i = length (cstr src)" using False 1(3) by simp
      moreover have "i < length src" using i 1(4) lt length_cstr_less by fastforce
      ultimately have "src ! i = 0" using cstr_nth_end by blast
      then show ?thesis using lt i all \<open>i < length src\<close>
        by (subst strncpy_loop.simps) (simp add: nth_r_of_nat)
    next
      case ge: False
      then have "i = min n (length (cstr src))" using 1(2,3) by auto
      with ge all show ?thesis by (subst strncpy_loop.simps) (simp add: Let_def)
    qed
  qed
qed

lemma take_cstr: "k \<le> length (cstr s) \<Longrightarrow> take k s = take k (cstr s)"
  by (induction s arbitrary: k) (auto simp: take_Cons' split: if_splits)

lemma strncpy_eq:
  assumes "is_cstr src \<or> n \<le> length src" "min n (length (cstr src)) \<le> length dest"
  shows "strncpy dest src n = (if min n (length (cstr src)) < length dest
    then Inr (take n (cstr src) @ 0 # drop (Suc (min n (length (cstr src)))) dest) else Inl OutOfBounds)"
proof -
  let ?k = "min n (length (cstr src))"
  have k: "take ?k src = take n (cstr src)"
    by (subst take_cstr) (auto simp: min_def)
  have "strncpy_loop dest src n 0 = Inr (?k, take n (cstr src) @ drop ?k dest)"
    using strncpy_loop_eq [of 0 n src dest] assms by (simp only: Let_def k)  simp
  moreover have "upd_r (take n (cstr src) @ drop ?k dest) (int ?k) 0 =
    (if ?k < length dest then Inr (take n (cstr src) @ 0 # drop (Suc ?k) dest) else Inl OutOfBounds)"
    using assms(2) by (auto simp: upd_r_of_nat list_update_append drop_Suc min_def
      simp flip: Cons_nth_drop_Suc)
  ultimately show ?thesis by (simp add: strncpy_def)
qed

lemma strncmp_eq_0:
  "is_cstr s1 \<Longrightarrow> is_cstr s2 \<Longrightarrow>
    \<exists>r. strncmp s1 s2 n = Inr r \<and> (r = 0 \<longleftrightarrow> take n (cstr s1) = take n (cstr s2))"
  by (induction s1 s2 n rule: strncmp.induct) (auto simp: word_uint_eq_iff)

lemma tolower_eq_0 [simp]: "tolower c = 0 \<longleftrightarrow> c = 0"
proof -
  have "c + 32 \<noteq> 0" if "65 \<le> sint c"
  proof
    assume "c + 32 = 0"
    then have "c = - 32" by (simp add: eq_neg_iff_add_eq_0)
    with that show False by simp
  qed
  then show ?thesis by (auto simp: tolower_def)
qed

lemma strnicmp_eq_0:
  "is_cstr s1 \<Longrightarrow> is_cstr s2 \<Longrightarrow>
    \<exists>r. strnicmp s1 s2 n = Inr r \<and> (r = 0 \<longleftrightarrow> map tolower (take n (cstr s1)) = map tolower (take n (cstr s2)))"
proof (induction s1 s2 n rule: strnicmp.induct)
  case (2 u1 s1 u2 s2 n)
  have z: "u1 = 0 \<longleftrightarrow> u2 = 0" if "tolower u1 = tolower u2" using that tolower_eq_0 by metis
  have n: "sint (tolower u1) - sint (tolower u2) = 0 \<longleftrightarrow> tolower u1 = tolower u2"
    by (metis eq_iff_diff_eq_0 signed_word_eqI)
  show ?case
    using 2 z n by (cases "tolower u1 = tolower u2"; cases "u1 = 0"; cases "u2 = 0") auto
qed auto

lemma sint_u8: "sint (c :: u8) = (if unat c < 128 then int (unat c) else int (unat c) - 256)"
proof -
  define n where "n = int (unat c)"
  have n: "0 \<le> n" "n < 256" using uint_lt2p [of c] by (simp_all add: n_def)
  have "sint c = (n + 128) mod 256 - 128"
    by (simp add: sint_uint signed_take_bit_eq_take_bit_shift take_bit_eq_mod n_def)
  moreover have "(n + 128) mod 256 = (if n < 128 then n + 128 else n - 128)"
    using n mod_add_self2 [of "n - 128" 256] by (auto simp: add.commute)
  moreover have "unat c < 128 \<longleftrightarrow> n < 128" by (simp only: n_def of_nat_less_numeral_iff)
  ultimately show ?thesis by (simp add: n_def)
qed

lemma is_digit_iff: "is_digit c \<longleftrightarrow> 48 \<le> c \<and> c \<le> 57"
proof -
  have u: "48 \<le> c \<longleftrightarrow> 48 \<le> unat c" "c \<le> 57 \<longleftrightarrow> unat c \<le> 57" "unat c < 256"
    using unsigned_less [of c, where ?'a = nat] by (simp_all add: word_le_nat_alt)
  show ?thesis unfolding is_digit_def sint_u8 u(1,2)
    using u(3) by - (cases "unat c < 128", simp_all only: if_True if_False, presburger+)
qed

lemma sint_digit: "c \<le> 57 \<Longrightarrow> sint (c :: u8) = uint c"
  by (simp add: sint_u8 word_le_nat_alt)

section \<open>Words\<close>

text \<open>The words of a text between the separators; two separators in a row enclose an empty word.\<close>

lemma dropWhile_shorter: "dropWhile P xs = y # ys \<Longrightarrow> length ys < length xs"
  by (metis Suc_le_eq length_Cons length_dropWhile_le)

function split_words :: "u8 \<Rightarrow> u8 list \<Rightarrow> u8 list list" where
  "split_words d cs = takeWhile (\<lambda>c. c \<noteq> d) cs # (case dropWhile (\<lambda>c. c \<noteq> d) cs of [] \<Rightarrow> [] | _ # cs \<Rightarrow> split_words d cs)"
  by pat_completeness auto
termination
  by (relation "measure (\<lambda>(d, cs). length cs)") (auto dest: dropWhile_shorter)

declare split_words.simps [simp del]

lemma split_words_Nil: "split_words d [] = [[]]"
  by (subst split_words.simps) simp

section \<open>Case\<close>

text \<open>Two characters agree up to case: they are equal, or the same letter of the alphabet in the two cases.\<close>

definition same_but_case :: "u8 \<Rightarrow> u8 \<Rightarrow> bool" where
  "same_but_case a b \<longleftrightarrow> a = b \<or> (\<exists>i < 26. {unat a, unat b} = {65 + i, 97 + i})"

lemma same_but_case_iff:
  "same_but_case a b \<longleftrightarrow> a = b \<or> (65 \<le> unat a \<and> unat a \<le> 90 \<and> unat b = unat a + 32) \<or> (65 \<le> unat b \<and> unat b \<le> 90 \<and> unat a = unat b + 32)"
proof -
  have "(\<exists>i < 26. {unat a, unat b} = {65 + i, 97 + i}) \<longleftrightarrow>
    (\<exists>i < 26. unat a = 65 + i \<and> unat b = 97 + i) \<or> (\<exists>i < 26. unat a = 97 + i \<and> unat b = 65 + i)"
    by (auto simp: doubleton_eq_iff)
  also have "\<dots> \<longleftrightarrow> (65 \<le> unat a \<and> unat a \<le> 90 \<and> unat b = unat a + 32) \<or> (65 \<le> unat b \<and> unat b \<le> 90 \<and> unat a = unat b + 32)"
    by presburger
  finally show ?thesis by (simp add: same_but_case_def)
qed

lemma unat_tolower: "unat (tolower c) = (if 65 \<le> unat c \<and> unat c \<le> 90 then unat c + 32 else unat c)"
proof -
  have "unat c < 256" using unsigned_less [of c, where ?'a = nat] by simp
  then have "65 \<le> sint c \<and> sint c \<le> 90 \<longleftrightarrow> 65 \<le> unat c \<and> unat c \<le> 90"
    unfolding sint_u8 by - (cases "unat c < 128", simp_all only: if_True if_False, presburger+)
  moreover have "unat (c + 32) = unat c + 32" if "unat c \<le> 90" using that by (simp add: unat_word_ariths)
  ultimately show ?thesis by (simp add: tolower_def)
qed

lemma tolower_eq_iff: "tolower a = tolower b \<longleftrightarrow> same_but_case a b"
proof -
  have "tolower a = tolower b \<longleftrightarrow> unat (tolower a) = unat (tolower b)" by (simp add: word_unat_eq_iff)
  also have "\<dots> \<longleftrightarrow> unat a = unat b \<or> (65 \<le> unat a \<and> unat a \<le> 90 \<and> unat b = unat a + 32) \<or> (65 \<le> unat b \<and> unat b \<le> 90 \<and> unat a = unat b + 32)"
    unfolding unat_tolower by auto
  finally show ?thesis by (simp add: same_but_case_iff word_unat_eq_iff)
qed

lemma map_tolower_eq: "map tolower xs = map tolower ys \<longleftrightarrow> list_all2 same_but_case xs ys"
  by (simp add: list_all2_conv_all_nth list_eq_iff_nth_eq tolower_eq_iff cong: conj_cong)

section \<open>Properties\<close>

text \<open>
  C16. \<open>strncpy\<close> copies the first \<open>n\<close> characters of the source string and always terminates the
  copy, so a string of at least \<open>n\<close> characters needs \<open>n + 1\<close> bytes of the destination: with
  exactly \<open>n\<close> bytes the terminator is written outside the buffer.
\<close>

theorem strncpy_copies:
  assumes "is_cstr src" "min n (length (cstr src)) \<le> length dest"
  shows "strncpy dest src n = (if min n (length (cstr src)) < length dest
    then Inr (take n (cstr src) @ 0 # drop (Suc (min n (length (cstr src)))) dest) else Inl OutOfBounds)"
  by (rule strncpy_eq) (use assms in auto)

theorem strncpy_copies_witness:
  "strncpy [9, 9, 9] [104, 105, 33, 0] 2 = Inr [104, 105, 0] \<and> strncpy [9, 9] [104, 105, 33, 0] 2 = Inl OutOfBounds"
  using strncpy_copies [of "[104, 105, 33, 0]" 2 "[9, 9, 9]"] strncpy_copies [of "[104, 105, 33, 0]" 2 "[9, 9]"]
  by simp

text \<open>
  C17. \<open>strnicmp\<close> returns 0 exactly when the first \<open>n\<close> characters of the two strings agree up to
  the case of ASCII letters; it never reads past either terminator.
\<close>

theorem strnicmp_zero_iff:
  assumes "is_cstr s1" "is_cstr s2"
  shows "\<exists>r. strnicmp s1 s2 n = Inr r \<and>
    (r = 0 \<longleftrightarrow> list_all2 same_but_case (take n (cstr s1)) (take n (cstr s2)))"
  using strnicmp_eq_0 [OF assms] by (simp add: map_tolower_eq)

theorem strnicmp_zero_iff_witness:
  "strnicmp [90, 98, 0] [122, 66, 0] 11 = Inr 0 \<and> (\<exists>r. strnicmp [64, 0] [96, 0] 1 = Inr r \<and> r \<noteq> 0)"
  using strnicmp_zero_iff [of "[90, 98, 0]" "[122, 66, 0]" 11] strnicmp_zero_iff [of "[64, 0]" "[96, 0]" 1]
  by (auto simp: same_but_case_iff)

end
