(* ===== verification/Heap_Alloc.thy ===== *)
theory Heap_Alloc
  imports C_Strings
begin

text \<open>
  The kernel heap: \<^verbatim>\<open>src/src/memory/heap/heap.c\<close>, \<^verbatim>\<open>heap.h\<close> and \<^verbatim>\<open>kernel_heap.c\<close>. The heap is a table
  with one byte per 4096-byte block; an allocation of \<open>n\<close> blocks is a run of entries whose
  first has IS_FIRST, and all but the last have HAS_NEXT.
\<close>

section \<open>Data\<close>

abbreviation (input) HEAP_BLOCK_TABLE_ENTRY_FREE :: u8 where "HEAP_BLOCK_TABLE_ENTRY_FREE \<equiv> 0x00"
abbreviation (input) HEAP_BLOCK_TABLE_ENTRY_TAKEN :: u8 where "HEAP_BLOCK_TABLE_ENTRY_TAKEN \<equiv> 0x01"
abbreviation (input) HEAP_BLOCK_IS_FIRST :: u8 where "HEAP_BLOCK_IS_FIRST \<equiv> 0x40"
abbreviation (input) HEAP_BLOCK_HAS_NEXT :: u8 where "HEAP_BLOCK_HAS_NEXT \<equiv> 0x80"

record heap_entry_table =
  entries :: "u8 list"
  total_entries :: u32

record heap_desc =
  table :: heap_entry_table
  start_addr :: u32

section \<open>Operations of heap.c\<close>

definition heap_valid_alignment :: "u32 \<Rightarrow> bool" where
  "heap_valid_alignment p \<longleftrightarrow> p mod HEAP_BLOCK_SIZE = 0"

definition heap_valid_table :: "u32 \<Rightarrow> u32 \<Rightarrow> heap_entry_table \<Rightarrow> bool" where
  "heap_valid_table heap_start_addr end_addr tab \<longleftrightarrow>
     (end_addr - heap_start_addr) div HEAP_BLOCK_SIZE = total_entries tab"

text \<open>
  The descriptor is written before the table is validated, as in the source. The final
  \<^verbatim>\<open>memset\<close> writes \<^verbatim>\<open>total_entries\<close> bytes of the table.
\<close>

definition heap_create :: "heap_desc \<Rightarrow> u32 \<Rightarrow> u32 \<Rightarrow> heap_entry_table \<Rightarrow> (int \<times> heap_desc) outcome" where
  "heap_create heap start end_addr tab =
     (if \<not> (heap_valid_alignment start \<and> heap_valid_alignment end_addr) then Inr (- EINVARG, heap)
      else let heap = \<lparr>table = tab, start_addr = start\<rparr> in
        if \<not> heap_valid_table start end_addr tab then Inr (- EINVARG, heap)
        else let table_size = unat (total_entries tab) in
          bind_r (memset (entries tab) (uint HEAP_BLOCK_TABLE_ENTRY_FREE) table_size) (\<lambda>es.
            Inr (0, heap\<lparr>table := tab\<lparr>entries := es\<rparr>\<rparr>)))"

definition align_upper_block_boundary :: "u32 \<Rightarrow> u32" where
  "align_upper_block_boundary val =
     (if val mod HEAP_BLOCK_SIZE = 0 then val
      else val - (val mod HEAP_BLOCK_SIZE) + HEAP_BLOCK_SIZE)"

definition heap_get_entry_type :: "u8 \<Rightarrow> u8" where
  "heap_get_entry_type entry = entry AND 0x0f"

text \<open>The scanning loop, with its variables \<^verbatim>\<open>i\<close>, \<^verbatim>\<open>bs\<close> and \<^verbatim>\<open>bc\<close>.\<close>

function heap_scan :: "heap_entry_table \<Rightarrow> u32 \<Rightarrow> nat \<Rightarrow> int \<Rightarrow> int \<Rightarrow> int outcome" where
  "heap_scan tab total_blocks i bs bc =
     (if i < unat (total_entries tab)
      then bind_r (nth_r (entries tab) (int i)) (\<lambda>e.
        if heap_get_entry_type e \<noteq> HEAP_BLOCK_TABLE_ENTRY_FREE
        then heap_scan tab total_blocks (Suc i) (-1) 0
        else let bs = (if bs = -1 then int i else bs); bc = bc + 1 in
          if of_int bc = total_blocks then Inr bs
          else heap_scan tab total_blocks (Suc i) bs bc)
      else Inr bs)"
  by pat_completeness auto
termination
  by (relation "measure (\<lambda>(tab, n, i, bs, bc). unat (total_entries tab) - i)") auto

definition heap_get_start_block_index :: "heap_desc \<Rightarrow> u32 \<Rightarrow> int outcome" where
  "heap_get_start_block_index heap total_blocks =
     bind_r (heap_scan (table heap) total_blocks 0 (-1) 0) (\<lambda>bs.
       if bs = -1 then Inr (- ENOMEM) else Inr bs)"

definition heap_block_to_address :: "heap_desc \<Rightarrow> u32 \<Rightarrow> u32" where
  "heap_block_to_address heap block_index = start_addr heap + block_index * HEAP_BLOCK_SIZE"

definition heap_address_to_block :: "heap_desc \<Rightarrow> u32 \<Rightarrow> int" where
  "heap_address_to_block heap addr = sint (addr - start_addr heap) sdiv 4096"

function mark_taken_loop :: "u8 list \<Rightarrow> int \<Rightarrow> int \<Rightarrow> u8 \<Rightarrow> u8 list outcome" where
  "mark_taken_loop es i end_block_index entry =
     (if i \<le> end_block_index
      then bind_r (upd_r es i entry) (\<lambda>es.
        mark_taken_loop es (i + 1) end_block_index
          (if i \<noteq> end_block_index - 1
           then HEAP_BLOCK_TABLE_ENTRY_TAKEN OR HEAP_BLOCK_HAS_NEXT
           else HEAP_BLOCK_TABLE_ENTRY_TAKEN))
      else Inr es)"
  by pat_completeness auto
termination
  by (relation "measure (\<lambda>(es, i, e, entry). nat (e - i + 1))") auto

definition set_entries :: "heap_desc \<Rightarrow> u8 list \<Rightarrow> heap_desc" where
  "set_entries heap es = heap\<lparr>table := (table heap)\<lparr>entries := es\<rparr>\<rparr>"

definition heap_mark_blocks_taken :: "heap_desc \<Rightarrow> int \<Rightarrow> u32 \<Rightarrow> heap_desc outcome" where
  "heap_mark_blocks_taken heap start_block_index total_blocks =
     (let end_block_index = sint (of_int start_block_index + total_blocks - 1 :: u32);
          entry = HEAP_BLOCK_TABLE_ENTRY_TAKEN OR HEAP_BLOCK_IS_FIRST;
          entry = (if total_blocks > 1 then entry OR HEAP_BLOCK_HAS_NEXT else entry) in
      bind_r (mark_taken_loop (entries (table heap)) start_block_index end_block_index entry)
        (\<lambda>es. Inr (set_entries heap es)))"

function mark_free_loop :: "u8 list \<Rightarrow> int \<Rightarrow> int \<Rightarrow> u8 list outcome" where
  "mark_free_loop es i n_entries =
     (if i < n_entries
      then bind_r (nth_r es i) (\<lambda>entry.
        bind_r (upd_r es i HEAP_BLOCK_TABLE_ENTRY_FREE) (\<lambda>es.
          if entry AND HEAP_BLOCK_HAS_NEXT = 0 then Inr es
          else mark_free_loop es (i + 1) n_entries))
      else Inr es)"
  by pat_completeness auto
termination
  by (relation "measure (\<lambda>(es, i, n). nat (n - i))") auto

definition heap_mark_blocks_free :: "heap_desc \<Rightarrow> int \<Rightarrow> heap_desc outcome" where
  "heap_mark_blocks_free heap start_block_index =
     bind_r (mark_free_loop (entries (table heap)) start_block_index (sint (total_entries (table heap))))
       (\<lambda>es. Inr (set_entries heap es))"

definition heap_malloc_blocks :: "heap_desc \<Rightarrow> u32 \<Rightarrow> (u32 \<times> heap_desc) outcome" where
  "heap_malloc_blocks heap total_blocks =
     bind_r (heap_get_start_block_index heap total_blocks) (\<lambda>start_block.
       if start_block < 0 then Inr (0, heap)
       else let addr = heap_block_to_address heap (of_int start_block) in
         bind_r (heap_mark_blocks_taken heap start_block total_blocks) (\<lambda>heap.
           Inr (addr, heap)))"

definition heap_malloc :: "heap_desc \<Rightarrow> u32 \<Rightarrow> (u32 \<times> heap_desc) outcome" where
  "heap_malloc heap sz =
     (let aligned_size = align_upper_block_boundary sz;
          total_blocks = aligned_size div HEAP_BLOCK_SIZE in
      heap_malloc_blocks heap total_blocks)"

definition heap_free :: "heap_desc \<Rightarrow> u32 \<Rightarrow> (int \<times> heap_desc) outcome" where
  "heap_free heap ptr =
     bind_r (heap_mark_blocks_free heap (heap_address_to_block heap ptr)) (\<lambda>heap. Inr (0, heap))"

section \<open>Operations of kernel\_heap.c\<close>

text \<open>
  The part of the kernel state that every component shares: the kernel heap and the physical
  memory, which the kernel sees through an identity mapping. Components extend this record.
\<close>

record kstate =
  kernel_heap :: heap_desc
  kmem :: mem

text \<open>
  \<^verbatim>\<open>table_mem\<close> are the bytes found at \<^verbatim>\<open>KERNEL_HEAP_TABLE_ADDR\<close>. The return code of
  \<^verbatim>\<open>heap_create\<close> is returned with the state; the source prints a message when it is negative.
\<close>

definition kernel_heap_init :: "u8 list \<Rightarrow> 'a kstate_scheme \<Rightarrow> (int \<times> 'a kstate_scheme) outcome" where
  "kernel_heap_init table_mem s =
     (let kernel_heap_table = \<lparr>entries = table_mem, total_entries = KERNEL_HEAP_SIZE div HEAP_BLOCK_SIZE\<rparr>;
          end_addr = KERNEL_HEAP_ADDRESS + KERNEL_HEAP_SIZE in
      bind_r (heap_create (kernel_heap s) KERNEL_HEAP_ADDRESS end_addr kernel_heap_table) (\<lambda>(rc, heap).
        Inr (rc, s\<lparr>kernel_heap := heap\<rparr>)))"

definition kmalloc :: "'a kstate_scheme \<Rightarrow> u32 \<Rightarrow> (u32 \<times> 'a kstate_scheme) outcome" where
  "kmalloc s sz = bind_r (heap_malloc (kernel_heap s) sz) (\<lambda>(ptr, heap). Inr (ptr, s\<lparr>kernel_heap := heap\<rparr>))"

definition kfree :: "'a kstate_scheme \<Rightarrow> u32 \<Rightarrow> (int \<times> 'a kstate_scheme) outcome" where
  "kfree s ptr = bind_r (heap_free (kernel_heap s) ptr) (\<lambda>(rc, heap). Inr (rc, s\<lparr>kernel_heap := heap\<rparr>))"

definition kzalloc :: "'a kstate_scheme \<Rightarrow> u32 \<Rightarrow> (u32 \<times> 'a kstate_scheme) outcome" where
  "kzalloc s sz = bind_r (kmalloc s sz) (\<lambda>(ptr, s).
     if ptr = 0 then Inr (0, s)
     else Inr (ptr, s\<lparr>kmem := memset_mem (kmem s) ptr 0 (unat sz)\<rparr>))"

section \<open>Invariant and abstraction\<close>

text \<open>
  \<open>tab_run inside es\<close> reads the entries as an automaton would: \<open>inside\<close> says that the previous
  entry has HAS_NEXT. A table is well formed when the automaton accepts it and ends outside
  an allocation.
\<close>

fun tab_run :: "bool \<Rightarrow> u8 list \<Rightarrow> bool option" where
  "tab_run b [] = Some b"
| "tab_run False (e # es) =
     (if e = 0x00 \<or> e = 0x41 then tab_run False es else if e = 0xC1 then tab_run True es else None)"
| "tab_run True (e # es) =
     (if e = 0x81 then tab_run True es else if e = 0x01 then tab_run False es else None)"

definition table_ok :: "u8 list \<Rightarrow> bool" where
  "table_ok es \<longleftrightarrow> tab_run False es = Some False"

text \<open>The entries of an allocation of \<open>n\<close> blocks, as the heap README describes them.\<close>

definition taken_tail :: "nat \<Rightarrow> u8 list" where
  "taken_tail k = (if k = 0 then [] else replicate (k - 1) 0x81 @ [0x01])"

definition taken_entries :: "nat \<Rightarrow> u8 list" where
  "taken_entries n = (if n = 0 then [] else (if n = 1 then 0x41 else 0xC1) # taken_tail (n - 1))"

text \<open>The number of blocks of the allocation whose entries start the list.\<close>

fun blk_len :: "u8 list \<Rightarrow> nat" where
  "blk_len [] = 0"
| "blk_len (e # es) = (if e AND HEAP_BLOCK_HAS_NEXT \<noteq> 0 then Suc (blk_len es) else 1)"

text \<open>Abstract state: the live allocations, from first block to number of blocks.\<close>

definition alloc_map :: "u8 list \<Rightarrow> nat \<rightharpoonup> nat" where
  "alloc_map es i = (if i < length es \<and> es ! i AND HEAP_BLOCK_IS_FIRST \<noteq> 0
     then Some (blk_len (drop i es)) else None)"

definition free_run :: "u8 list \<Rightarrow> nat \<Rightarrow> nat \<Rightarrow> bool" where
  "free_run es i n \<longleftrightarrow> i + n \<le> length es \<and> (\<forall>k < n. heap_get_entry_type (es ! (i + k)) = 0)"

definition heap_ok :: "heap_desc \<Rightarrow> bool" where
  "heap_ok h \<longleftrightarrow> (let es = entries (table h) in
     table_ok es \<and> length es = unat (total_entries (table h)) \<and> 4096 * length es < 2 ^ 31 \<and>
     start_addr h mod HEAP_BLOCK_SIZE = 0 \<and> start_addr h \<noteq> 0 \<and>
     unat (start_addr h) + 4096 * length es < 2 ^ 32)"

text \<open>The live allocations by address: from first byte to number of bytes.\<close>

definition live :: "heap_desc \<Rightarrow> u32 \<rightharpoonup> nat" where
  "live h p = (let d = unat (p - start_addr h) in
     if d mod 4096 = 0 then map_option (\<lambda>n. 4096 * n) (alloc_map (entries (table h)) (d div 4096))
     else None)"

declare heap_scan.simps [simp del] mark_taken_loop.simps [simp del] mark_free_loop.simps [simp del]

section \<open>The table automaton\<close>

lemma tab_run_append: "tab_run b (xs @ ys) = Option.bind (tab_run b xs) (\<lambda>c. tab_run c ys)"
  by (induction b xs rule: tab_run.induct) auto

lemma tab_run_replicate_free [simp]: "tab_run False (replicate n 0) = Some False"
  by (induction n) auto

lemma tab_run_taken_tail: "tab_run True (replicate k 0x81 @ [0x01]) = Some False"
  by (induction k) auto

lemma tab_run_taken_entries [simp]: "tab_run False (taken_entries n) = Some False"
  by (auto simp: taken_entries_def taken_tail_def tab_run_taken_tail)

lemma length_taken_entries [simp]: "length (taken_entries n) = n"
  by (auto simp: taken_entries_def taken_tail_def)

lemma blk_len_le: "blk_len es \<le> length es"
  by (induction es) auto

lemma blk_len_taken_entries [simp]:
  "0 < n \<Longrightarrow> blk_len (taken_entries n @ ys) = n"
proof -
  have tail: "blk_len (replicate k 0x81 @ 0x01 # ys) = Suc k" for k
    by (induction k) auto
  show "0 < n \<Longrightarrow> ?thesis"
    by (cases n) (auto simp: taken_entries_def taken_tail_def tail)
qed

text \<open>Inside an accepted table, an allocation never runs past a point where the automaton is outside.\<close>

lemma blk_len_append:
  "tab_run b xs = Some False \<Longrightarrow> xs \<noteq> [] \<Longrightarrow> blk_len (xs @ ys) = blk_len xs"
proof (induction b xs rule: tab_run.induct)
  case (2 e es)
  then show ?case by (cases es) (auto split: if_splits)
next
  case (3 e es)
  then show ?case by (cases es) (auto split: if_splits)
qed simp

lemma blk_len_inside:
  "tab_run True xs = Some False \<Longrightarrow> \<exists>k ys. xs = replicate k 0x81 @ 0x01 # ys \<and> tab_run False ys = Some False"
proof (induction xs)
  case (Cons e es)
  show ?case
  proof (cases "e = 0x81")
    case True
    with Cons obtain k ys where "es = replicate k 0x81 @ 0x01 # ys" "tab_run False ys = Some False"
      by auto
    with True show ?thesis by (intro exI [of _ "Suc k"] exI [of _ ys]) simp
  next
    case False
    with Cons.prems have "e = 0x01" "tab_run False es = Some False" by (auto split: if_splits)
    then show ?thesis by (intro exI [of _ 0] exI [of _ es]) simp
  qed
qed simp

text \<open>An entry with IS_FIRST, read outside an allocation, starts a complete allocation.\<close>

lemma first_entry_split:
  assumes "tab_run False (e # es) = Some False" "e AND 0x40 \<noteq> 0"
  shows "\<exists>ys. e # es = taken_entries (blk_len (e # es)) @ ys \<and> tab_run False ys = Some False
    \<and> 0 < blk_len (e # es)"
proof -
  consider "e = 0x41" "tab_run False es = Some False" | "e = 0xC1" "tab_run True es = Some False"
    using assms by (auto split: if_splits)
  then show ?thesis
  proof cases
    case 1
    then show ?thesis by (auto simp: taken_entries_def taken_tail_def)
  next
    case 2
    from blk_len_inside [OF 2(2)] obtain k ys
      where es: "es = replicate k 0x81 @ 0x01 # ys" "tab_run False ys = Some False" by blast
    then have "e # es = taken_entries (k + 2) @ ys"
      using 2 by (simp add: taken_entries_def taken_tail_def)
    then show ?thesis using es(2) by (metis blk_len_taken_entries add_2_eq_Suc' zero_less_Suc)
  qed
qed

text \<open>A free or first entry is only accepted outside an allocation.\<close>

lemma tab_run_outside:
  assumes "table_ok (xs @ e # ys)" "e = 0 \<or> e AND 0x40 \<noteq> 0"
  shows "tab_run False xs = Some False \<and> tab_run False (e # ys) = Some False"
proof -
  from assms(1) obtain c where c: "tab_run False xs = Some c" "tab_run c (e # ys) = Some False"
    by (auto simp: table_ok_def tab_run_append bind_eq_Some_conv)
  have "c = False"
    using c(2) assms(2) by (cases c) (auto split: if_splits)
  with c show ?thesis by simp
qed

lemma tab_run_entry_values: 
  "tab_run b es = Some c \<Longrightarrow> e \<in> set es \<Longrightarrow> e \<in> {0x00, 0x41, 0xC1, 0x81, 0x01}"
  by (induction b es rule: tab_run.induct) (auto split: if_splits)

lemma free_entry_iff: "tab_run b es = Some c \<Longrightarrow> i < length es \<Longrightarrow> heap_get_entry_type (es ! i) = 0 \<longleftrightarrow> es ! i = 0"
  using tab_run_entry_values [of b es c "es ! i"] by (auto simp: heap_get_entry_type_def)

lemma free_run_split:
  assumes "table_ok es" "free_run es i n" 
  shows "es = take i es @ replicate n 0 @ drop (i + n) es"
proof -
  have "take n (drop i es) = replicate n 0"
    using assms free_entry_iff [of False es False]
    by (intro nth_equalityI) (auto simp: free_run_def table_ok_def)
  then show ?thesis
    by (metis add.commute append_take_drop_id drop_drop)
qed

lemma table_ok_replace:
  assumes "tab_run False xs = Some False" "tab_run False zs = Some False"
    "tab_run False zs' = Some False" "table_ok (xs @ zs @ ys)"
  shows "table_ok (xs @ zs' @ ys)"
  using assms by (simp add: table_ok_def tab_run_append)

text \<open>The abstraction of a table that is split at a point outside every allocation.\<close>

lemma alloc_map_append:
  assumes "tab_run False xs = Some False"
  shows "alloc_map (xs @ ys) i = (if i < length xs then alloc_map xs i else alloc_map ys (i - length xs))"
proof (cases "i < length xs")
  case True
  then have ne: "drop i xs \<noteq> []" by auto
  have "Option.bind (tab_run False (take i xs)) (\<lambda>c. tab_run c (drop i xs)) = Some False"
    using assms tab_run_append [of False "take i xs" "drop i xs"] by simp
  then obtain c where "tab_run c (drop i xs) = Some False"
    by (auto simp: bind_eq_Some_conv)
  from blk_len_append [OF this ne] True show ?thesis
    by (simp add: alloc_map_def nth_append)
next
  case False
  then show ?thesis by (auto simp: alloc_map_def nth_append)
qed

lemma alloc_map_replicate_free [simp]: "alloc_map (replicate n 0) = Map.empty"
  by (auto simp: alloc_map_def)

lemma taken_tail_not_first: "e \<in> set (taken_tail k) \<Longrightarrow> e AND 0x40 = 0"
  by (auto simp: taken_tail_def split: if_splits)

lemma length_taken_tail [simp]: "length (taken_tail k) = k"
  by (simp add: taken_tail_def)

lemma alloc_map_taken_entries:
  assumes n: "0 < n"
  shows "alloc_map (taken_entries n) = [0 \<mapsto> n]"
proof (rule ext)
  fix i
  have first: "taken_entries n ! 0 AND 0x40 \<noteq> 0" using n by (simp add: taken_entries_def)
  have rest: "taken_entries n ! Suc j AND 0x40 = 0" if "Suc j < n" for j
    using that by (intro taken_tail_not_first [of _ "n - 1"]) (simp add: taken_entries_def)
  show "alloc_map (taken_entries n) i = [0 \<mapsto> n] i"
    using n first rest blk_len_taken_entries [of n "[]"] by (cases i) (auto simp: alloc_map_def)
qed

section \<open>The loops\<close>

lemma mark_taken_loop_eq:
  "i + k < length es \<Longrightarrow> mark_taken_loop es (int i) (int (i + k)) e =
     Inr (take i es @ e # taken_tail k @ drop (Suc (i + k)) es)"
proof (induction k arbitrary: i es e)
  case 0
  then show ?case
    by (subst mark_taken_loop.simps, subst mark_taken_loop.simps)
      (simp add: taken_tail_def upd_conv_take_nth_drop upd_r_of_nat)
next
  case (Suc k)
  let ?es = "es[i := e]" and ?e = "if k \<noteq> 0 then 0x81 else 0x01 :: u8"
  have "mark_taken_loop es (int i) (int (i + Suc k)) e = mark_taken_loop ?es (int (Suc i)) (int (Suc i + k)) ?e"
    using Suc.prems by (subst mark_taken_loop.simps) (auto simp: upd_r_of_nat ac_simps)
  also have "\<dots> = Inr (take (Suc i) ?es @ ?e # taken_tail k @ drop (Suc (Suc i + k)) ?es)"
    using Suc.prems by (intro Suc.IH) simp
  also have "\<dots> = Inr (take i es @ e # taken_tail (Suc k) @ drop (Suc (i + Suc k)) es)"
  proof -
    have "?e # taken_tail k = taken_tail (Suc k)"
      by (cases k) (auto simp: taken_tail_def)
    moreover have "take (Suc i) ?es = take i es @ [e]"
      using Suc.prems by (simp add: take_Suc_conv_app_nth)
    ultimately show ?thesis by (simp flip: append_Cons)
  qed
  finally show ?case .
qed

lemma mark_taken_loop_overrun:
  "i \<le> length es \<Longrightarrow> length es \<le> i + k \<Longrightarrow> mark_taken_loop es (int i) (int (i + k)) e = Inl OutOfBounds"
proof (induction k arbitrary: i es e)
  case 0
  then show ?case by (subst mark_taken_loop.simps) (simp add: upd_r_of_nat)
next
  case (Suc k)
  show ?case
  proof (cases "i < length es")
    case True
    have "mark_taken_loop (es[i := e]) (int (Suc i)) (int (Suc i + k)) e' = Inl OutOfBounds" for e'
      using Suc.prems True by (intro Suc.IH) auto
    with True show ?thesis
      by (subst mark_taken_loop.simps) (simp add: upd_r_of_nat ac_simps)
  next
    case False
    then show ?thesis by (subst mark_taken_loop.simps) (simp add: upd_r_of_nat)
  qed
qed

lemma mark_free_loop_eq:
  "i \<le> length es \<Longrightarrow> mark_free_loop es (int i) (int (length es)) =
     Inr (take i es @ replicate (blk_len (drop i es)) 0 @ drop (i + blk_len (drop i es)) es)"
proof (induction "length es - i" arbitrary: i es)
  case 0
  then show ?case by (subst mark_free_loop.simps) simp
next
  case (Suc k)
  then have i: "i < length es" by simp
  then have d: "drop i es = es ! i # drop (Suc i) es" by (simp add: Cons_nth_drop_Suc)
  have t: "take (Suc i) (es[i := 0]) = take i es @ [0]"
    using i by (simp add: take_Suc_conv_app_nth)
  have IH: "mark_free_loop (es[i := 0]) (int (Suc i)) (int (length es)) =
      Inr (take i es @ 0 # replicate (blk_len (drop (Suc i) es)) 0
        @ drop (Suc i + blk_len (drop (Suc i) es)) es)"
    using Suc.hyps(1) [of "es[i := 0]" "Suc i"] Suc.hyps(2) i t by simp
  show ?case
  proof (cases "es ! i AND 0x80 = 0")
    case True
    have "es[i := 0] = take i es @ 0 # drop (Suc i) es"
      using i by (simp add: upd_conv_take_nth_drop)
    with True i d show ?thesis
      by (subst mark_free_loop.simps) (simp add: nth_r_of_nat upd_r_of_nat)
  next
    case False
    with i d IH show ?thesis
      by (subst mark_free_loop.simps) (simp add: nth_r_of_nat upd_r_of_nat ac_simps)
  qed
qed

text \<open>What the scan returns: the first run that fits, or the trailing free run, or -1.\<close>

definition scan_result :: "u8 list \<Rightarrow> nat \<Rightarrow> int \<Rightarrow> bool" where
  "scan_result es n r \<longleftrightarrow>
     (\<exists>f. r = int f \<and> free_run es f n \<and> (\<forall>j < f. \<not> free_run es j n)) \<or>
     (\<forall>j. \<not> free_run es j n) \<and>
       (r = -1 \<and> (es = [] \<or> heap_get_entry_type (last es) \<noteq> 0) \<or>
        (\<exists>b < length es. r = int b \<and> free_run es b (length es - b)))"

definition scan_inv :: "u8 list \<Rightarrow> nat \<Rightarrow> nat \<Rightarrow> int \<Rightarrow> int \<Rightarrow> bool" where
  "scan_inv es n i bs bc \<longleftrightarrow> i \<le> length es \<and>
     (bs = -1 \<and> bc = 0 \<and> (\<forall>j < i. \<not> free_run es j n) \<and> (i = 0 \<or> heap_get_entry_type (es ! (i - 1)) \<noteq> 0) \<or>
      (\<exists>b < i. bs = int b \<and> bc = int (i - b) \<and> i - b < n \<and> free_run es b (i - b) \<and> (\<forall>j < b. \<not> free_run es j n)))"

lemma free_run_bound: "free_run es j n \<Longrightarrow> j + n \<le> length es"
  by (simp add: free_run_def)

lemma scan_inv_taken:
  assumes "scan_inv es n i bs bc" "i < length es" "heap_get_entry_type (es ! i) \<noteq> 0" "0 < n"
  shows "scan_inv es n (Suc i) (-1) 0"
proof -
  have "\<not> free_run es j n" if "j \<le> i" for j
  proof
    assume f: "free_run es j n"
    have "n \<le> i - j" 
    proof (rule ccontr)
      assume "\<not> n \<le> i - j"
      with f \<open>j \<le> i\<close> have "heap_get_entry_type (es ! (j + (i - j))) = 0" 
        unfolding free_run_def by (metis not_le_imp_less)
      with assms(3) \<open>j \<le> i\<close> show False by simp
    qed
    with \<open>0 < n\<close> have "j < i" by linarith
    from assms(1) consider "\<forall>j < i. \<not> free_run es j n"
      | b where "i - b < n" "\<forall>j < b. \<not> free_run es j n"
      unfolding scan_inv_def by blast
    then show False
    proof cases
      case 1
      with f \<open>j < i\<close> show ?thesis by blast
    next
      case 2
      with \<open>n \<le> i - j\<close> have "j < b" by linarith
      with 2 f show ?thesis by blast
    qed
  qed
  with assms show ?thesis by (auto simp: scan_inv_def)
qed


lemma scan_inv_free:
  assumes "scan_inv es n i bs bc" "i < length es" "heap_get_entry_type (es ! i) = 0" "0 < n"
  shows "let b = (if bs = -1 then int i else bs); c = bc + 1 in
    (c = int n \<longrightarrow> scan_result es n b) \<and> (c \<noteq> int n \<longrightarrow> scan_inv es n (Suc i) b c)
    \<and> 0 \<le> c \<and> c \<le> int (length es)"
proof -
  from assms(1) consider "bs = -1" "bc = 0" "\<forall>j < i. \<not> free_run es j n"
    | b where "b < i" "bs = int b" "bc = int (i - b)" "i - b < n" "free_run es b (i - b)" "\<forall>j < b. \<not> free_run es j n"
    unfolding scan_inv_def by blast
  then obtain b where b: "b \<le> i" "(if bs = -1 then int i else bs) = int b" "bc = int (i - b)"
    "i - b < n" "free_run es b (i - b)" "\<forall>j < b. \<not> free_run es j n"
  proof cases
    case 1
    then show ?thesis using assms(2,4) by (intro that [of i]) (simp_all add: free_run_def)
  next
    case 2
    then show ?thesis by (intro that [of b]) simp_all
  qed
  have run: "free_run es b (Suc i - b)"
    using b(1,5) assms(2,3) by (auto simp: free_run_def less_Suc_eq Suc_diff_le)
  have c: "bc + 1 = int (Suc i - b)"
    using b(1,3) by simp
  have "scan_result es n (int b)" if "Suc i - b = n"
    using that run b(6) by (auto simp: scan_result_def)
  moreover have "scan_inv es n (Suc i) (int b) (int (Suc i - b))" if "Suc i - b \<noteq> n"
    unfolding scan_inv_def using that run b(1,4,6) assms(2)
    by (intro conjI disjI2 exI [of _ b]) auto
  ultimately show ?thesis
    unfolding Let_def b(2) c using assms(2) by (simp only: of_nat_eq_iff) simp
qed

lemma scan_inv_end:
  assumes "scan_inv es n (length es) bs bc" "0 < n"
  shows "scan_result es n bs"
proof -
  from assms(1) consider
      "bs = -1" "\<forall>j < length es. \<not> free_run es j n" "es = [] \<or> heap_get_entry_type (es ! (length es - 1)) \<noteq> 0"
    | b where "b < length es" "bs = int b" "length es - b < n" "free_run es b (length es - b)"
        "\<forall>j < b. \<not> free_run es j n"
    unfolding scan_inv_def by auto
  then show ?thesis
  proof cases
    case 1
    then have "\<not> free_run es j n" for j
      using \<open>0 < n\<close> free_run_bound [of es j n] by (cases "j < length es") auto
    with 1 show ?thesis by (auto simp: scan_result_def last_conv_nth)
  next
    case 2
    have "\<not> free_run es j n" for j
      using 2(3,5) free_run_bound [of es j n] by (cases "j < b") auto
    with 2 show ?thesis by (auto simp: scan_result_def)
  qed
qed

lemma heap_scan_result:
  assumes "length (entries tab) = unat (total_entries tab)" "0 < unat n"
    "scan_inv (entries tab) (unat n) i bs bc"
  shows "\<exists>r. heap_scan tab n i bs bc = Inr r \<and> scan_result (entries tab) (unat n) r"
  using assms
proof (induction tab n i bs bc rule: heap_scan.induct)
  case (1 tab n i bs bc)
  let ?es = "entries tab"
  show ?case
  proof (cases "i < unat (total_entries tab)")
    case True
    then have i: "nth_r ?es (int i) = Inr (?es ! i)" "i < length ?es"
      using "1.prems" by (simp_all add: nth_r_of_nat)
    show ?thesis
    proof (cases "heap_get_entry_type (?es ! i) = 0")
      case taken: False
      have "\<exists>r. heap_scan tab n (Suc i) (-1) 0 = Inr r \<and> scan_result ?es (unat n) r"
        by (rule "1.IH"(1) [OF True i(1) taken "1.prems"(1,2)
              scan_inv_taken [OF "1.prems"(3) i(2) taken "1.prems"(2)]])
      with True i taken show ?thesis by (subst heap_scan.simps) simp
    next
      case free: True
      let ?b = "if bs = -1 then int i else bs"
      note step = scan_inv_free [OF "1.prems"(3) i(2) free "1.prems"(2), unfolded Let_def]
      have eq: "of_int (bc + 1) = n \<longleftrightarrow> bc + 1 = int (unat n)"
        using step "1.prems"(1) unat_lt_2p32 [of "total_entries tab"]
        by (intro of_int_eq_word_iff) linarith+
      show ?thesis
      proof (cases "bc + 1 = int (unat n)")
        case True
        with \<open>i < unat (total_entries tab)\<close> i free step eq show ?thesis
          by (subst heap_scan.simps) (simp add: Let_def)
      next
        case False
        have "\<exists>r. heap_scan tab n (Suc i) ?b (bc + 1) = Inr r \<and> scan_result ?es (unat n) r"
          by (rule "1.IH"(2) [OF \<open>i < unat (total_entries tab)\<close> i(1) _ refl refl _ "1.prems"(1,2)])
            (use free step eq False in auto)
        with \<open>i < unat (total_entries tab)\<close> i free eq False show ?thesis
          by (subst heap_scan.simps) (simp add: Let_def)
      qed
    qed
  next
    case False
    with "1.prems" have "i = length ?es" by (auto simp: scan_inv_def)
    with "1.prems" False show ?thesis
      by (subst heap_scan.simps) (auto intro: scan_inv_end)
  qed
qed

section \<open>Operations on a well-formed heap\<close>

lemma heap_ok_entries:
  assumes "heap_ok h"
  shows "table_ok (entries (table h))" "length (entries (table h)) = unat (total_entries (table h))"
    "length (entries (table h)) < 2 ^ 19"
  using assms by (auto simp: heap_ok_def Let_def)

lemma set_entries_simps [simp]:
  "entries (table (set_entries h es)) = es"
  "total_entries (table (set_entries h es)) = total_entries (table h)"
  "start_addr (set_entries h es) = start_addr h"
  by (simp_all add: set_entries_def)

lemma heap_ok_set_entries:
  "heap_ok h \<Longrightarrow> table_ok es \<Longrightarrow> length es = length (entries (table h)) \<Longrightarrow> heap_ok (set_entries h es)"
  by (simp add: heap_ok_def Let_def)

lemma heap_mark_blocks_taken_eq:
  assumes "heap_ok h" "0 < unat n" "f + unat n \<le> length (entries (table h))"
  shows "heap_mark_blocks_taken h (int f) n =
    Inr (set_entries h (take f (entries (table h)) @ taken_entries (unat n) @ drop (f + unat n) (entries (table h))))"
proof -
  let ?es = "entries (table h)"
  have len: "length ?es < 2 ^ 19" using assms(1) by (rule heap_ok_entries)
  have "unat (of_int (int f) + n - 1 :: u32) = f + unat n - 1"
    using assms len by (simp add: unat_sub_if_size unat_word_ariths unat_of_nat)
  then have e: "sint (of_int (int f) + n - 1 :: u32) = int (f + (unat n - 1))"
    using assms len by (subst sint_small) auto
  have "mark_taken_loop ?es (int f) (int (f + (unat n - 1))) (if n > 1 then 0x41 OR 0x80 else 0x41) =
      Inr (take f ?es @ (if n > 1 then 0x41 OR 0x80 else 0x41) # taken_tail (unat n - 1) @ drop (f + unat n) ?es)"
    using assms by (subst mark_taken_loop_eq) auto
  moreover have "(if n > 1 then 0x41 OR 0x80 else 0x41) # taken_tail (unat n - 1) = taken_entries (unat n)"
    using assms(2) by (auto simp: taken_entries_def word_less_nat_alt)
  ultimately show ?thesis
    using e by (simp add: heap_mark_blocks_taken_def Let_def)
qed


lemma scan_inv_start: "0 < n \<Longrightarrow> scan_inv es n 0 (-1) 0"
  by (simp add: scan_inv_def)

lemma heap_get_start_block_index_result:
  assumes "heap_ok h" "0 < unat n"
  shows "\<exists>r. heap_get_start_block_index h n = Inr (if r = -1 then - ENOMEM else r)
    \<and> scan_result (entries (table h)) (unat n) r"
proof -
  from heap_scan_result [OF heap_ok_entries(2) [OF assms(1)] assms(2) scan_inv_start [OF assms(2)]]
  obtain r where "heap_scan (table h) n 0 (-1) 0 = Inr r" "scan_result (entries (table h)) (unat n) r"
    by blast
  then show ?thesis by (intro exI [of _ r]) (simp add: heap_get_start_block_index_def)
qed

definition first_fit :: "u8 list \<Rightarrow> nat \<Rightarrow> nat \<Rightarrow> bool" where
  "first_fit es n f \<longleftrightarrow> free_run es f n \<and> (\<forall>j < f. \<not> free_run es j n)"

lemma first_fit_exists: "free_run es i n \<Longrightarrow> \<exists>f. first_fit es n f"
  unfolding first_fit_def using LeastI [of "\<lambda>i. free_run es i n"] not_less_Least by blast

lemma scan_result_first_fit:
  assumes "first_fit es n f" "scan_result es n r"
  shows "r = int f"
  using assms unfolding scan_result_def first_fit_def by (metis linorder_neqE_nat)

lemma heap_malloc_blocks_fit:
  assumes "heap_ok h" "0 < unat n" "first_fit (entries (table h)) (unat n) f"
  shows "heap_malloc_blocks h n = Inr (heap_block_to_address h (of_nat f),
     set_entries h (take f (entries (table h)) @ taken_entries (unat n) @ drop (f + unat n) (entries (table h))))"
proof -
  from heap_get_start_block_index_result [OF assms(1,2)] scan_result_first_fit [OF assms(3)]
  have "heap_get_start_block_index h n = Inr (int f)" by force
  moreover have "f + unat n \<le> length (entries (table h))"
    using assms(3) by (simp add: first_fit_def free_run_def)
  ultimately show ?thesis
    using heap_mark_blocks_taken_eq [OF assms(1,2)] by (simp add: heap_malloc_blocks_def)
qed

lemma alloc_map_replace:
  assumes "tab_run False xs = Some False" "tab_run False zs = Some False"
    "tab_run False zs' = Some False" "length zs' = length zs"
  shows "alloc_map (xs @ zs' @ ys) i =
    (if length xs \<le> i \<and> i < length xs + length zs then alloc_map zs' (i - length xs)
     else alloc_map (xs @ zs @ ys) i)"
  using assms(4) by (auto simp: alloc_map_append [OF assms(1)] alloc_map_append [OF assms(2)]
    alloc_map_append [OF assms(3)])

lemma alloc_map_mark_taken:
  assumes "table_ok es" "free_run es f n" "0 < n"
  shows "alloc_map (take f es @ taken_entries n @ drop (f + n) es) = (alloc_map es)(f \<mapsto> n)"
    "table_ok (take f es @ taken_entries n @ drop (f + n) es)"
proof -
  define xs ys where "xs = take f es" and "ys = drop (f + n) es"
  have es: "es = xs @ replicate n 0 @ ys"
    using free_run_split [OF assms(1,2)] by (simp add: xs_def ys_def)
  have f: "length xs = f" using assms(2) by (simp add: free_run_def xs_def)
  obtain m where m: "n = Suc m" using assms(3) gr0_implies_Suc by blast
  have "table_ok (xs @ 0 # replicate m 0 @ ys)"
    using assms(1) unfolding es m by simp
  from tab_run_outside [OF this] have xs: "tab_run False xs = Some False" by simp
  have "table_ok (xs @ taken_entries n @ ys)"
    using assms(1) unfolding es by (rule table_ok_replace [OF xs tab_run_replicate_free tab_run_taken_entries])
  then show "table_ok (take f es @ taken_entries n @ drop (f + n) es)"
    by (simp add: xs_def ys_def)
  have old: "alloc_map es i = None" if "length xs \<le> i" "i < length xs + n" for i
    using that unfolding es by (auto simp: alloc_map_append [OF xs] alloc_map_append [OF tab_run_replicate_free])
  have "alloc_map (xs @ taken_entries n @ ys) i = ((alloc_map es)(f \<mapsto> n)) i" for i
    using old [of i] assms(3) f unfolding es
    by (subst alloc_map_replace [OF xs tab_run_replicate_free [of n] tab_run_taken_entries])
      (auto simp: alloc_map_taken_entries)
  then show "alloc_map (take f es @ taken_entries n @ drop (f + n) es) = (alloc_map es)(f \<mapsto> n)"
    by (auto simp: xs_def ys_def)
qed

lemma alloc_map_split:
  assumes "table_ok es" "alloc_map es i = Some n"
  shows "\<exists>ys. es = take i es @ taken_entries n @ ys \<and> tab_run False (take i es) = Some False
    \<and> tab_run False ys = Some False \<and> 0 < n \<and> i + n \<le> length es"
proof -
  have i: "i < length es" "es ! i AND 0x40 \<noteq> 0" "n = blk_len (drop i es)"
    using assms(2) by (auto simp: alloc_map_def split: if_splits)
  have d: "drop i es = es ! i # drop (Suc i) es" using i by (simp add: Cons_nth_drop_Suc)
  have "table_ok (take i es @ es ! i # drop (Suc i) es)"
    using assms(1) by (simp flip: d)
  note out = tab_run_outside [OF this disjI2 [OF i(2)]]
  from first_entry_split [OF conjunct2 [OF out] i(2)]
  obtain ys where ys: "drop i es = taken_entries n @ ys" "tab_run False ys = Some False" "0 < n"
    using d i(3) by auto
  have "es = take i es @ taken_entries n @ ys"
    by (simp flip: ys(1))
  moreover have "i + n \<le> length es"
    using i(1) arg_cong [OF ys(1), of length] by simp
  ultimately show ?thesis using out ys by blast
qed

lemma alloc_map_disjoint:
  assumes "table_ok es" "alloc_map es i = Some a" "alloc_map es j = Some b" "i < j"
  shows "i + a \<le> j"
proof (rule ccontr)
  assume "\<not> i + a \<le> j"
  from alloc_map_split [OF assms(1,2)] obtain ys where
    es: "es = take i es @ taken_entries a @ ys" and xs: "tab_run False (take i es) = Some False"
    and a: "0 < a" "i + a \<le> length es" by blast
  have "alloc_map es j = alloc_map (taken_entries a) (j - i)"
    using \<open>\<not> i + a \<le> j\<close> assms(4) a
    by (subst es, subst alloc_map_append [OF xs], subst alloc_map_append [OF tab_run_taken_entries]) auto
  with assms(3,4) a show False by (simp add: alloc_map_taken_entries)
qed

lemma alloc_map_mark_free:
  assumes "table_ok es" "alloc_map es i = Some n"
  shows "alloc_map (take i es @ replicate n 0 @ drop (i + n) es) = (alloc_map es)(i := None)"
    "table_ok (take i es @ replicate n 0 @ drop (i + n) es)"
proof -
  define xs ys where "xs = take i es" and "ys = drop (i + n) es"
  from alloc_map_split [OF assms] obtain ys' where
    es': "es = take i es @ taken_entries n @ ys'" and xs: "tab_run False xs = Some False"
    and n: "0 < n" "i + n \<le> length es" unfolding xs_def by blast
  have f: "length xs = i" using n by (simp add: xs_def)
  have "drop (i + n) (xs @ taken_entries n @ ys') = ys'" using f by simp
  then have es: "es = xs @ taken_entries n @ ys"
    using es' unfolding xs_def ys_def by metis
  have "table_ok (xs @ replicate n 0 @ ys)"
    using assms(1) unfolding es by (rule table_ok_replace [OF xs tab_run_taken_entries tab_run_replicate_free])
  then show "table_ok (take i es @ replicate n 0 @ drop (i + n) es)"
    by (simp add: xs_def ys_def)
  have old: "alloc_map es j = None" if "length xs < j" "j < length xs + n" for j
    using that unfolding es
    by (auto simp: alloc_map_append [OF xs] alloc_map_append [OF tab_run_taken_entries] alloc_map_taken_entries)
  have "alloc_map (xs @ replicate n 0 @ ys) j = ((alloc_map es)(i := None)) j" for j
    using old [of j] f n(1) unfolding es
    by (subst alloc_map_replace [OF xs tab_run_taken_entries [of n] tab_run_replicate_free]) auto
  then show "alloc_map (take i es @ replicate n 0 @ drop (i + n) es) = (alloc_map es)(i := None)"
    by (auto simp: xs_def ys_def)
qed

section \<open>Addresses\<close>

abbreviation blk_addr :: "heap_desc \<Rightarrow> nat \<Rightarrow> u32" where
  "blk_addr h i \<equiv> heap_block_to_address h (of_nat i)"

lemma unat_block_offset: "i < 2 ^ 20 \<Longrightarrow> unat (of_nat i * 4096 :: u32) = 4096 * i"
  by (simp add: unat_word_ariths unat_of_nat)

lemma blk_addr_offset: "i < 2 ^ 20 \<Longrightarrow> unat (blk_addr h i - start_addr h) = 4096 * i"
  by (simp add: heap_block_to_address_def unat_block_offset)

lemma heap_ok_start:
  assumes "heap_ok h"
  shows "unat (start_addr h) + 4096 * length (entries (table h)) < 2 ^ 32" "0 < unat (start_addr h)"
    "unat (start_addr h) mod 4096 = 0"
proof -
  show "unat (start_addr h) + 4096 * length (entries (table h)) < 2 ^ 32"
    using assms by (auto simp: heap_ok_def Let_def)
  show "0 < unat (start_addr h)" using assms by (auto simp: heap_ok_def Let_def unat_gt_0)
  have "start_addr h mod 4096 = 0" using assms by (auto simp: heap_ok_def Let_def)
  then have "unat (start_addr h mod 4096) = 0" by simp
  then show "unat (start_addr h) mod 4096 = 0" by (simp add: unat_mod)
qed

lemma unat_blk_addr:
  assumes "heap_ok h" "i \<le> length (entries (table h))"
  shows "unat (blk_addr h i) = unat (start_addr h) + 4096 * i"
proof -
  have "unat (start_addr h) + 4096 * i < 2 ^ 32" "i < 2 ^ 20"
    using heap_ok_start(1) [OF assms(1)] heap_ok_entries(3) [OF assms(1)] assms(2) by simp_all
  then show ?thesis
    by (simp add: heap_block_to_address_def unat_word_ariths unat_of_nat)
qed

lemma blk_addr_not_null: "heap_ok h \<Longrightarrow> i \<le> length (entries (table h)) \<Longrightarrow> blk_addr h i \<noteq> 0"
  using unat_blk_addr [of h i] heap_ok_start(2) [of h] by auto

lemma blk_addr_aligned:
  assumes "heap_ok h" "i \<le> length (entries (table h))"
  shows "blk_addr h i mod 4096 = 0"
proof -
  have "unat (blk_addr h i mod 4096) = 0"
    using unat_blk_addr [OF assms] heap_ok_start(3) [OF assms(1)] by (simp add: unat_mod mod_simps)
  then show ?thesis by (simp only: unat_0_iff)
qed

lemma blk_addr_eqI:
  assumes "unat (p - start_addr h) = 4096 * i"
  shows "p = blk_addr h i"
proof -
  have "p - start_addr h = of_nat (unat (p - start_addr h))" by simp
  also have "\<dots> = of_nat i * 4096" unfolding assms by simp
  finally show ?thesis by (simp add: heap_block_to_address_def algebra_simps)
qed

lemma heap_address_to_block_blk_addr:
  assumes "heap_ok h" "i < length (entries (table h))"
  shows "heap_address_to_block h (blk_addr h i) = int i"
proof -
  have "i < 2 ^ 19" using assms heap_ok_entries(3) by fastforce
  then have "sint (blk_addr h i - start_addr h) = int (4096 * i)"
    by (subst sint_small) (simp_all add: blk_addr_offset del: of_nat_unat)
  then show ?thesis
    by (simp add: heap_address_to_block_def signed_divide_int_def sgn_if)
qed

lemma live_blk_addr:
  "i < 2 ^ 20 \<Longrightarrow> live h (blk_addr h i) = map_option (\<lambda>n. 4096 * n) (alloc_map (entries (table h)) i)"
  by (simp add: live_def blk_addr_offset)

lemma live_SomeD:
  assumes "live h p = Some k"
  shows "\<exists>i n. p = blk_addr h i \<and> i < length (entries (table h))
    \<and> alloc_map (entries (table h)) i = Some n \<and> k = 4096 * n"
proof -
  let ?d = "unat (p - start_addr h)"
  from assms obtain n where d: "?d mod 4096 = 0" "alloc_map (entries (table h)) (?d div 4096) = Some n" "k = 4096 * n"
    by (auto simp: live_def Let_def split: if_splits)
  have "p = blk_addr h (?d div 4096)"
    using d(1) by (intro blk_addr_eqI) auto
  moreover have "?d div 4096 < length (entries (table h))"
    using d(2) by (auto simp: alloc_map_def split: if_splits)
  ultimately show ?thesis using d by blast
qed

lemma live_set_entries:
  assumes "alloc_map es = (alloc_map (entries (table h)))(i := v)" "i < 2 ^ 20"
  shows "live (set_entries h es) = (live h)(blk_addr h i := map_option (\<lambda>n. 4096 * n) v)"
proof (rule ext)
  fix p
  let ?d = "unat (p - start_addr h)"
  have "p = blk_addr h i \<longleftrightarrow> ?d = 4096 * i"
    using blk_addr_eqI [of p h i] blk_addr_offset [OF assms(2), of h] by blast
  moreover have "?d mod 4096 = 0 \<Longrightarrow> ?d div 4096 = i \<longleftrightarrow> ?d = 4096 * i" by auto
  ultimately show "live (set_entries h es) p = ((live h)(blk_addr h i := map_option (\<lambda>n. 4096 * n) v)) p"
    by (auto simp: live_def Let_def assms(1))
qed

definition blocks_for :: "u32 \<Rightarrow> nat" where
  "blocks_for sz = (unat sz + 4095) div 4096"

lemma align_upper_blocks:
  assumes "unat sz \<le> 4294963200"
  shows "unat (align_upper_block_boundary sz div 4096) = blocks_for sz"
proof -
  define q r where "q = unat sz div 4096" and "r = unat sz mod 4096"
  have x: "unat sz = 4096 * q + r" "r < 4096" by (simp_all add: q_def r_def)
  have m: "unat (sz mod 4096) = r" by (simp add: unat_mod r_def)
  have b: "blocks_for sz = (if r = 0 then q else Suc q)"
    using x unfolding blocks_for_def x(1) by (auto simp: div_nat_eqI)
  show ?thesis
  proof (cases "r = 0")
    case True
    with m have "sz mod 4096 = 0" by (simp only: unat_0_iff)
    with True b x show ?thesis by (simp add: align_upper_block_boundary_def unat_div)
  next
    case False
    with m have ne: "sz mod 4096 \<noteq> 0" by (metis unat_0)
    have sub: "unat (sz - sz mod 4096) = 4096 * q"
      using m x by (simp add: unat_sub word_le_nat_alt)
    have "4096 * q + 4096 < 4294967296"
      using assms x False by linarith
    then have "unat (sz - sz mod 4096 + 4096) = 4096 * Suc q"
      using sub by (simp add: unat_word_ariths)
    with ne b False show ?thesis
      by (simp add: align_upper_block_boundary_def unat_div)
  qed
qed

section \<open>The allocator as an interface\<close>

text \<open>
  What the rest of the kernel relies on: a successful allocation is a new block, disjoint from
  every live one, and a live block can be released. \<open>request_ok\<close> bounds the sizes for which
  the contract holds.
\<close>

definition request_ok :: "u32 \<Rightarrow> bool" where
  "request_ok sz \<longleftrightarrow> 0 < unat sz \<and> unat sz \<le> 4294963200"

locale block_allocator =
  fixes inv :: "'s \<Rightarrow> bool"
    and blocks :: "'s \<Rightarrow> u32 \<rightharpoonup> nat"
    and alloc :: "'s \<Rightarrow> u32 \<Rightarrow> (u32 \<times> 's) outcome"
    and release :: "'s \<Rightarrow> u32 \<Rightarrow> (int \<times> 's) outcome"
  assumes alloc_null: "inv s \<Longrightarrow> request_ok sz \<Longrightarrow> alloc s sz = Inr (0, s') \<Longrightarrow> s' = s"
    and alloc_inv: "inv s \<Longrightarrow> request_ok sz \<Longrightarrow> alloc s sz = Inr (p, s') \<Longrightarrow> inv s'"
    and alloc_block: "inv s \<Longrightarrow> request_ok sz \<Longrightarrow> alloc s sz = Inr (p, s') \<Longrightarrow> p \<noteq> 0 \<Longrightarrow>
      blocks s p = None \<and> (\<exists>k. unat sz \<le> k \<and> blocks s' = (blocks s)(p \<mapsto> k))"
    and release_block: "inv s \<Longrightarrow> blocks s p = Some k \<Longrightarrow>
      \<exists>s'. release s p = Inr (0, s') \<and> inv s' \<and> blocks s' = (blocks s)(p := None)"
    and blocks_not_null: "inv s \<Longrightarrow> blocks s 0 = None"
    and blocks_separate: "inv s \<Longrightarrow> blocks s p = Some a \<Longrightarrow> blocks s q = Some b \<Longrightarrow> p \<noteq> q \<Longrightarrow>
      in_block p a x \<Longrightarrow> \<not> in_block q b x"
begin

lemma alloc_keeps:
  assumes "inv s" "request_ok sz" "alloc s sz = Inr (p, s')" "blocks s q = Some b"
  shows "blocks s' q = Some b"
  using alloc_null [OF assms(1,2)] alloc_block [OF assms(1-3)] assms(3,4) by (cases "p = 0") auto

lemma alloc_separate:
  assumes "inv s" "request_ok sz" "alloc s sz = Inr (p, s')" "p \<noteq> 0" "blocks s q = Some b"
    "unat x < unat sz"
  shows "\<not> in_block q b (p + x)"
proof -
  from alloc_block [OF assms(1-4)] obtain k where
    k: "blocks s p = None" "unat sz \<le> k" "blocks s' = (blocks s)(p \<mapsto> k)" by blast
  have "p \<noteq> q" using k(1) assms(5) by auto
  have "in_block p k (p + x)" using assms(6) k(2) by (simp add: in_block_def)
  moreover have "blocks s' p = Some k" "blocks s' q = Some b" using k(3) assms(5) \<open>p \<noteq> q\<close> by auto
  ultimately show ?thesis
    using blocks_separate [OF alloc_inv [OF assms(1-3)], of p k q b "p + x"] \<open>p \<noteq> q\<close> by blast
qed

lemma alloc_release:
  assumes "inv s" "request_ok sz" "alloc s sz = Inr (p, s')" "p \<noteq> 0"
  shows "\<exists>s''. release s' p = Inr (0, s'') \<and> inv s'' \<and> blocks s'' = blocks s"
proof -
  from alloc_block [OF assms] obtain k where
    k: "blocks s p = None" "blocks s' = (blocks s)(p \<mapsto> k)" by blast
  from release_block [OF alloc_inv [OF assms(1-3)], of p k] k(2)
  obtain s'' where "release s' p = Inr (0, s'')" "inv s''" "blocks s'' = (blocks s')(p := None)" by auto
  moreover have "(blocks s')(p := None) = blocks s" using k by auto
  ultimately show ?thesis by auto
qed

end

locale page_allocator = block_allocator +
  fixes avail :: "'a \<Rightarrow> nat"
  assumes alloc_page: "inv s \<Longrightarrow> 0 < unat sz \<Longrightarrow> unat sz \<le> 4096 \<Longrightarrow> 0 < avail s \<Longrightarrow>
      \<exists>p s'. alloc s sz = Inr (p, s') \<and> p \<noteq> 0 \<and> avail s' = avail s - 1"
    and alloc_page_none: "inv s \<Longrightarrow> 0 < unat sz \<Longrightarrow> unat sz \<le> 4096 \<Longrightarrow> avail s = 0 \<Longrightarrow>
      alloc s sz = Inr (0, s)"
    and release_avail: "inv s \<Longrightarrow> blocks s p = Some k \<Longrightarrow> release s p = Inr (0, s') \<Longrightarrow> avail s < avail s'"
    and blocks_page: "inv s \<Longrightarrow> blocks s p = Some k \<Longrightarrow> p mod 4096 = 0 \<and> 4096 \<le> k"
begin

lemma alloc_page_total:
  assumes "inv s" "0 < unat sz" "unat sz \<le> 4096"
  shows "\<exists>p s'. alloc s sz = Inr (p, s') \<and> inv s'"
proof -
  have "request_ok sz" using assms by (simp add: request_ok_def)
  from alloc_page [OF assms] alloc_page_none [OF assms] obtain p s' where "alloc s sz = Inr (p, s')"
    by (cases "avail s = 0") auto
  with alloc_inv [OF assms(1) \<open>request_ok sz\<close>] show ?thesis by blast
qed

end

text \<open>
  An allocator that clears what it returns: the client's view of \<open>kzalloc\<close>. Bytes of blocks that are
  live before the call keep their value.
\<close>

locale zeroing_allocator = page_allocator +
  fixes memory :: "'a \<Rightarrow> mem"
  assumes alloc_memory: "inv s \<Longrightarrow> request_ok sz \<Longrightarrow> alloc s sz = Inr (p, s') \<Longrightarrow> p \<noteq> 0 \<Longrightarrow>
    memory s' x = (if in_block p (unat sz) x then 0 else memory s x)"
begin

lemma alloc_page_fresh:
  assumes "inv s" "0 < unat sz" "unat sz \<le> 4096" "0 < avail s"
  shows "\<exists>p s' k. alloc s sz = Inr (p, s') \<and> p \<noteq> 0 \<and> p mod 4096 = 0 \<and> inv s' \<and> avail s' = avail s - 1 \<and>
    blocks s p = None \<and> 4096 \<le> k \<and> blocks s' = (blocks s)(p \<mapsto> k) \<and>
    (\<forall>x. memory s' x = (if in_block p (unat sz) x then 0 else memory s x))"
proof -
  have rq: "request_ok sz" using assms(2,3) by (simp add: request_ok_def)
  from alloc_page [OF assms] obtain p s' where a: "alloc s sz = Inr (p, s')" "p \<noteq> 0" "avail s' = avail s - 1"
    by blast
  from alloc_block [OF assms(1) rq a(1,2)] obtain k where
    k: "blocks s p = None" "blocks s' = (blocks s)(p \<mapsto> k)" by blast
  have i: "inv s'" by (rule alloc_inv [OF assms(1) rq a(1)])
  have "p mod 4096 = 0 \<and> 4096 \<le> k" using blocks_page [OF i, of p k] k(2) by simp
  with a k i alloc_memory [OF assms(1) rq a(1,2)] show ?thesis
    by (intro exI [of _ p] exI [of _ s'] exI [of _ k]) simp
qed

lemma alloc_keeps_bytes:
  assumes "inv s" "request_ok sz" "alloc s sz = Inr (p, s')" "p \<noteq> 0" "blocks s q = Some b" "in_block q b x"
  shows "memory s' x = memory s x"
proof -
  have "\<not> in_block p (unat sz) x"
    using alloc_separate [OF assms(1-5), of "x - p"] assms(6) by (auto simp: in_block_def)
  with alloc_memory [OF assms(1-4)] show ?thesis by simp
qed

end

definition free_blocks :: "heap_desc \<Rightarrow> nat" where
  "free_blocks h = length (filter (\<lambda>e. e = 0) (entries (table h)))"

section \<open>The kernel heap implements the interface\<close>

abbreviation (input) after_malloc :: "heap_desc \<Rightarrow> nat \<Rightarrow> nat \<Rightarrow> heap_desc" where
  "after_malloc h f n \<equiv> set_entries h
     (take f (entries (table h)) @ taken_entries n @ drop (f + n) (entries (table h)))"

lemma blocks_for_bounds: "request_ok sz \<Longrightarrow> 0 < blocks_for sz \<and> blocks_for sz < 2 ^ 20 \<and> unat sz \<le> 4096 * blocks_for sz"
proof -
  assume h: "request_ok sz"
  have "unat sz + 4095 = 4096 * blocks_for sz + (unat sz + 4095) mod 4096"
    by (simp add: blocks_for_def)
  moreover have "(unat sz + 4095) mod 4096 < 4096" by simp
  ultimately have "unat sz \<le> 4096 * blocks_for sz" "4096 * blocks_for sz \<le> unat sz + 4095" by linarith+
  then show ?thesis using h by (simp add: request_ok_def)
qed

lemma heap_malloc_eq:
  assumes "request_ok sz"
  shows "heap_malloc h sz = heap_malloc_blocks h (of_nat (blocks_for sz))"
    "unat (of_nat (blocks_for sz) :: u32) = blocks_for sz"
proof -
  show u: "unat (of_nat (blocks_for sz) :: u32) = blocks_for sz"
    using blocks_for_bounds [OF assms] by (simp add: unat_of_nat)
  have "align_upper_block_boundary sz div 4096 = of_nat (blocks_for sz)"
    using align_upper_blocks [of sz] assms u by (auto simp: request_ok_def word_unat_eq_iff)
  then show "heap_malloc h sz = heap_malloc_blocks h (of_nat (blocks_for sz))"
    by (simp add: heap_malloc_def Let_def)
qed

lemma heap_malloc_overrun:
  assumes "heap_ok h" "request_ok sz" "b < length (entries (table h))"
    "length (entries (table h)) < b + blocks_for sz"
    "heap_get_start_block_index h (of_nat (blocks_for sz)) = Inr (int b)"
  shows "heap_malloc h sz = Inl OutOfBounds"
proof -
  let ?es = "entries (table h)" and ?n = "blocks_for sz"
  note bf = blocks_for_bounds [OF assms(2)] and len = heap_ok_entries(3) [OF assms(1)]
  have "unat (of_int (int b) + of_nat ?n - 1 :: u32) = b + ?n - 1"
    using assms bf len by (simp add: unat_sub_if_size unat_word_ariths unat_of_nat)
  then have e: "sint (of_int (int b) + of_nat ?n - 1 :: u32) = int (b + (?n - 1))"
    using assms bf len by (subst sint_small) auto
  have "mark_taken_loop ?es (int b) (int (b + (?n - 1))) e = Inl OutOfBounds" for e
    using assms(3,4) bf by (intro mark_taken_loop_overrun) auto
  then show ?thesis
    using e assms(5) by (simp add: heap_malloc_eq(1) [OF assms(2)] heap_malloc_blocks_def
      heap_mark_blocks_taken_def Let_def)
qed

lemma heap_malloc_cases:
  assumes "heap_ok h" "request_ok sz"
  obtains (fit) f where "first_fit (entries (table h)) (blocks_for sz) f"
      "heap_malloc h sz = Inr (blk_addr h f, after_malloc h f (blocks_for sz))"
  | (null) "\<forall>i. \<not> free_run (entries (table h)) i (blocks_for sz)"
      "entries (table h) = [] \<or> last (entries (table h)) \<noteq> 0" "heap_malloc h sz = Inr (0, h)"
  | (overrun) "\<forall>i. \<not> free_run (entries (table h)) i (blocks_for sz)"
      "entries (table h) \<noteq> []" "last (entries (table h)) = 0" "heap_malloc h sz = Inl OutOfBounds"
proof -
  let ?es = "entries (table h)" and ?n = "blocks_for sz"
  note bf = blocks_for_bounds [OF assms(2)] and eq = heap_malloc_eq [OF assms(2)]
  have last0: "heap_get_entry_type (last ?es) = 0 \<longleftrightarrow> last ?es = 0" if "?es \<noteq> []"
    using that free_entry_iff [of False ?es False "length ?es - 1"] heap_ok_entries(1) [OF assms(1)]
    by (simp add: last_conv_nth table_ok_def)
  obtain r where r: "heap_get_start_block_index h (of_nat ?n) = Inr (if r = -1 then - ENOMEM else r)"
    "scan_result ?es ?n r"
    using heap_get_start_block_index_result [OF assms(1), of "of_nat ?n"] bf eq(2) by auto
  from r(2) consider f where "first_fit ?es ?n f"
    | "\<forall>j. \<not> free_run ?es j ?n" "r = -1" "?es = [] \<or> heap_get_entry_type (last ?es) \<noteq> 0"
    | b where "\<forall>j. \<not> free_run ?es j ?n" "b < length ?es" "r = int b" "free_run ?es b (length ?es - b)"
    unfolding scan_result_def first_fit_def by blast
  then show ?thesis
  proof cases
    case 1
    with heap_malloc_blocks_fit [OF assms(1), of "of_nat ?n"] bf eq show ?thesis
      by (intro fit [of f]) auto
  next
    case 2
    with r(1) last0 eq(1) show ?thesis by (intro null) (auto simp: heap_malloc_blocks_def)
  next
    case (3 b)
    have "length ?es < b + ?n"
    proof (rule ccontr)
      assume "\<not> length ?es < b + ?n"
      with 3(4) have "free_run ?es b ?n" by (simp add: free_run_def)
      with 3(1) show False by blast
    qed
    moreover have "heap_get_entry_type (last ?es) = 0"
    proof -
      have "?es ! (b + (length ?es - b - 1)) = last ?es" using 3(2) by (subst last_conv_nth) auto
      then show ?thesis using 3(2,4) unfolding free_run_def by (metis diff_less zero_less_diff zero_less_one)
    qed
    moreover have "?es \<noteq> []" using 3(2) by auto
    ultimately show ?thesis
      using 3 r(1) last0 heap_malloc_overrun [OF assms, of b] by (intro overrun) auto
  qed
qed

lemma after_malloc_facts:
  assumes "heap_ok h" "first_fit (entries (table h)) n f" "0 < n"
  shows "heap_ok (after_malloc h f n)" "live (after_malloc h f n) = (live h)(blk_addr h f \<mapsto> 4096 * n)"
    "live h (blk_addr h f) = None" "blk_addr h f \<noteq> 0" "f + n \<le> length (entries (table h))"
proof -
  let ?es = "entries (table h)"
  have run: "free_run ?es f n" using assms(2) by (simp add: first_fit_def)
  then show fn: "f + n \<le> length ?es" by (simp add: free_run_def)
  have f: "f < 2 ^ 20" using fn heap_ok_entries(3) [OF assms(1)] by simp
  note am = alloc_map_mark_taken [OF heap_ok_entries(1) [OF assms(1)] run assms(3)]
  show "heap_ok (after_malloc h f n)"
    using fn by (intro heap_ok_set_entries [OF assms(1) am(2)]) simp
  show "live (after_malloc h f n) = (live h)(blk_addr h f \<mapsto> 4096 * n)"
    using live_set_entries [OF am(1) f] by simp
  have "?es ! f = 0"
    using run assms(3) free_entry_iff [of False ?es False f] heap_ok_entries(1) [OF assms(1)] fn
    by (auto simp: free_run_def table_ok_def)
  then show "live h (blk_addr h f) = None"
    by (simp add: live_blk_addr [OF f] alloc_map_def)
  show "blk_addr h f \<noteq> 0" using fn by (intro blk_addr_not_null [OF assms(1)]) simp
qed

lemma live_separate:
  assumes "heap_ok h" "live h p = Some a" "live h q = Some b" "p \<noteq> q" "in_block p a x"
  shows "\<not> in_block q b x"
proof
  assume "in_block q b x"
  from live_SomeD [OF assms(2)] obtain i n where i: "p = blk_addr h i" "i < length (entries (table h))"
    "alloc_map (entries (table h)) i = Some n" "a = 4096 * n" by blast
  from live_SomeD [OF assms(3)] obtain j m where j: "q = blk_addr h j" "j < length (entries (table h))"
    "alloc_map (entries (table h)) j = Some m" "b = 4096 * m" by blast
  note T = heap_ok_entries(1) [OF assms(1)]
  have "i + n \<le> length (entries (table h))" "j + m \<le> length (entries (table h))"
    using alloc_map_split [OF T i(3)] alloc_map_split [OF T j(3)] by auto
  moreover have "i + n \<le> j \<or> j + m \<le> i"
    using alloc_map_disjoint [OF T i(3) j(3)] alloc_map_disjoint [OF T j(3) i(3)] assms(4) i(1) j(1)
    by (metis linorder_neqE_nat)
  moreover have "unat p = unat (start_addr h) + 4096 * i" "unat q = unat (start_addr h) + 4096 * j"
    using unat_blk_addr [OF assms(1)] i(1,2) j(1,2) by auto
  moreover note heap_ok_start(1) [OF assms(1)]
  ultimately show False
    using assms(5) \<open>in_block q b x\<close> i(4) j(4)
    by (subst (asm) in_block_iff, simp, subst (asm) in_block_iff, simp, linarith)
qed


lemma heap_free_eq:
  assumes "heap_ok h" "live h p = Some k"
  shows "\<exists>i n. p = blk_addr h i \<and> i < 2 ^ 20 \<and> alloc_map (entries (table h)) i = Some n \<and> k = 4096 * n \<and>
    heap_free h p = Inr (0, set_entries h
      (take i (entries (table h)) @ replicate n 0 @ drop (i + n) (entries (table h))))"
proof -
  let ?es = "entries (table h)"
  from live_SomeD [OF assms(2)] obtain i n where i: "p = blk_addr h i" "i < length ?es"
    "alloc_map ?es i = Some n" "k = 4096 * n" by blast
  have len: "length ?es < 2 ^ 19" "length ?es = unat (total_entries (table h))"
    using heap_ok_entries [OF assms(1)] by auto
  have n: "n = blk_len (drop i ?es)" using i(3) by (auto simp: alloc_map_def split: if_splits)
  have t: "sint (total_entries (table h)) = int (length ?es)"
    using len by (subst sint_small) auto
  have "heap_free h p = Inr (0, set_entries h (take i ?es @ replicate n 0 @ drop (i + n) ?es))"
    using i(2) mark_free_loop_eq [of i ?es] n
    by (simp add: heap_free_def heap_mark_blocks_free_def t i(1)
      heap_address_to_block_blk_addr [OF assms(1) i(2)])
  with i len(1) show ?thesis by (intro exI [of _ i] exI [of _ n]) auto
qed

lemma heap_free_live:
  assumes "heap_ok h" "live h p = Some k"
  shows "\<exists>h'. heap_free h p = Inr (0, h') \<and> heap_ok h' \<and> live h' = (live h)(p := None)"
proof -
  let ?es = "entries (table h)"
  from heap_free_eq [OF assms] obtain i n where i: "p = blk_addr h i" "i < 2 ^ 20" "alloc_map ?es i = Some n"
    and eq: "heap_free h p = Inr (0, set_entries h (take i ?es @ replicate n 0 @ drop (i + n) ?es))" by blast
  note T = heap_ok_entries(1) [OF assms(1)]
  have "i + n \<le> length ?es" using alloc_map_split [OF T i(3)] by blast
  then show ?thesis
    using eq live_set_entries [OF alloc_map_mark_free(1) [OF T i(3)] i(2)] i(1)
      heap_ok_set_entries [OF assms(1) alloc_map_mark_free(2) [OF T i(3)]] by auto
qed

lemma live_not_null: "heap_ok h \<Longrightarrow> live h 0 = None"
proof (rule ccontr)
  assume h: "heap_ok h" and "live h 0 \<noteq> None"
  then obtain k where "live h 0 = Some k" by blast
  from live_SomeD [OF this] obtain i where "0 = blk_addr h i" "i < length (entries (table h))" by blast
  with blk_addr_not_null [OF h, of i] show False by simp
qed

interpretation kheap: block_allocator heap_ok live heap_malloc heap_free
proof unfold_locales
  fix h sz p h'
  assume ok: "heap_ok h" and rq: "request_ok sz"
  note n0 = blocks_for_bounds [OF rq]
  show "h' = h" if "heap_malloc h sz = Inr (0, h')"
    using ok rq by (cases rule: heap_malloc_cases) (use that after_malloc_facts(4) [OF ok] n0 in auto)
  show "heap_ok h'" if "heap_malloc h sz = Inr (p, h')"
    using ok rq by (cases rule: heap_malloc_cases) (use that after_malloc_facts(1) [OF ok] n0 ok in auto)
  show "live h p = None \<and> (\<exists>k. unat sz \<le> k \<and> live h' = (live h)(p \<mapsto> k))"
    if "heap_malloc h sz = Inr (p, h')" "p \<noteq> 0"
    using ok rq by (cases rule: heap_malloc_cases) (use that after_malloc_facts(2,3) [OF ok] n0 in auto)
qed (use heap_free_live live_not_null live_separate in blast)+

lemma kmalloc_eq: "kmalloc s sz = Inr (p, s') \<longleftrightarrow>
  (\<exists>h. heap_malloc (kernel_heap s) sz = Inr (p, h) \<and> s' = s\<lparr>kernel_heap := h\<rparr>)"
  by (auto simp: kmalloc_def bind_r_eq_Inr_iff)

lemma kfree_eq: "kfree s p = Inr (rc, s') \<longleftrightarrow>
  (\<exists>h. heap_free (kernel_heap s) p = Inr (rc, h) \<and> s' = s\<lparr>kernel_heap := h\<rparr>)"
  by (auto simp: kfree_def bind_r_eq_Inr_iff)

lemma kzalloc_eq: "kzalloc s sz = Inr (p, s') \<longleftrightarrow>
  (\<exists>h. heap_malloc (kernel_heap s) sz = Inr (p, h) \<and>
    s' = (if p = 0 then s\<lparr>kernel_heap := h\<rparr>
          else s\<lparr>kernel_heap := h, kmem := memset_mem (kmem s) p 0 (unat sz)\<rparr>))"
  by (auto simp: kzalloc_def kmalloc_def bind_r_eq_Inr_iff split: if_splits prod.splits)

lemma free_blocks_Suc_iff:
  assumes "heap_ok h"
  shows "0 < free_blocks h \<longleftrightarrow> (\<exists>i. free_run (entries (table h)) i 1)"
proof -
  have "0 < free_blocks h \<longleftrightarrow> (\<exists>i < length (entries (table h)). entries (table h) ! i = 0)"
    by (auto simp: free_blocks_def filter_empty_conv in_set_conv_nth)
  also have "\<dots> \<longleftrightarrow> (\<exists>i. free_run (entries (table h)) i 1)"
    using free_entry_iff [of False "entries (table h)" False] heap_ok_entries(1) [OF assms]
    by (auto simp: free_run_def table_ok_def Suc_le_eq)
  finally show ?thesis .
qed

lemma blocks_for_page: "0 < unat sz \<Longrightarrow> unat sz \<le> 4096 \<Longrightarrow> blocks_for sz = 1 \<and> request_ok sz"
  by (auto simp: blocks_for_def request_ok_def intro!: div_nat_eqI)

lemma free_blocks_after_malloc:
  assumes "heap_ok h" "first_fit (entries (table h)) 1 f"
  shows "free_blocks (after_malloc h f 1) = free_blocks h - 1"
proof -
  let ?es = "entries (table h)"
  define xs ys where "xs = take f ?es" and "ys = drop (Suc f) ?es"
  have "f < length ?es" using after_malloc_facts(5) [OF assms] by simp
  moreover have "?es ! f = 0"
    using assms free_entry_iff [of False ?es False f] heap_ok_entries(1) [OF assms(1)] calculation
    by (auto simp: first_fit_def free_run_def table_ok_def)
  ultimately have es: "?es = xs @ 0 # ys"
    using id_take_nth_drop [of f ?es] by (simp add: xs_def ys_def)
  have t: "\<forall>e \<in> set (taken_entries 1). e \<noteq> 0" "length (taken_entries 1) = 1"
    by (auto simp: taken_entries_def taken_tail_def)
  then have "filter (\<lambda>e. e = 0) (taken_entries 1) = []" by (simp add: filter_empty_conv)
  then have "free_blocks (after_malloc h f 1) = length (filter (\<lambda>e. e = 0) (xs @ ys))"
    by (simp add: free_blocks_def flip: xs_def ys_def)
  also have "\<dots> = free_blocks h - 1" unfolding free_blocks_def es by simp
  finally show ?thesis .
qed

lemma heap_malloc_page:
  assumes "heap_ok h" "0 < unat sz" "unat sz \<le> 4096"
  shows "0 < free_blocks h \<Longrightarrow>
      \<exists>p h'. heap_malloc h sz = Inr (p, h') \<and> p \<noteq> 0 \<and> free_blocks h' = free_blocks h - 1"
    "free_blocks h = 0 \<Longrightarrow> heap_malloc h sz = Inr (0, h)"
proof -
  note bf = blocks_for_page [OF assms(2,3)]
  have rq: "request_ok sz" using bf by blast
  show "\<exists>p h'. heap_malloc h sz = Inr (p, h') \<and> p \<noteq> 0 \<and> free_blocks h' = free_blocks h - 1"
    if "0 < free_blocks h"
    using assms(1) rq
    by (cases rule: heap_malloc_cases)
      (use that bf free_blocks_Suc_iff [OF assms(1)] free_blocks_after_malloc [OF assms(1)]
         after_malloc_facts(4) [OF assms(1)] in auto)
  assume z: "free_blocks h = 0"
  have "last (entries (table h)) \<noteq> 0" if "entries (table h) \<noteq> []"
    using z last_in_set [OF that] by (auto simp: free_blocks_def filter_empty_conv)
  with assms(1) rq show "heap_malloc h sz = Inr (0, h)"
    by (cases rule: heap_malloc_cases)
      (use z bf free_blocks_Suc_iff [OF assms(1)] in \<open>auto simp: first_fit_def\<close>)
qed

lemma heap_free_avail:
  assumes "heap_ok h" "live h p = Some k" "heap_free h p = Inr (0, h')"
  shows "free_blocks h < free_blocks h'"
proof -
  let ?es = "entries (table h)"
  from heap_free_eq [OF assms(1,2)] obtain i n where i: "p = blk_addr h i" "alloc_map ?es i = Some n"
    and eq: "heap_free h p = Inr (0, set_entries h (take i ?es @ replicate n 0 @ drop (i + n) ?es))" by blast
  define xs zs ys where "xs = take i ?es" and "zs = take n (drop i ?es)" and "ys = drop (i + n) ?es"
  have es: "?es = xs @ zs @ ys"
    by (simp add: xs_def zs_def ys_def) (metis append_take_drop_id drop_drop add.commute)
  have n: "i + n \<le> length ?es" "0 < n" "?es ! i \<noteq> 0"
    using alloc_map_split [OF heap_ok_entries(1) [OF assms(1)] i(2)] i(2)
    by (auto simp: alloc_map_def split: if_splits)
  then have "length zs = n" "?es ! i \<in> set zs"
    by (auto simp: zs_def in_set_conv_nth intro!: exI [of _ 0])
  then have "length (filter (\<lambda>e. e = 0) zs) < n"
    using length_filter_less [of "?es ! i" zs "\<lambda>e. e = 0"] n by auto
  moreover have "free_blocks h' = length (filter (\<lambda>e. e = 0) xs) + n + length (filter (\<lambda>e. e = 0) ys)"
    using assms(3) eq by (auto simp: free_blocks_def simp flip: xs_def ys_def)
  ultimately show ?thesis by (simp add: free_blocks_def es)
qed

lemma live_page: "heap_ok h \<Longrightarrow> live h p = Some k \<Longrightarrow> p mod 4096 = 0 \<and> 4096 \<le> k"
proof -
  assume h: "heap_ok h" and l: "live h p = Some k"
  from live_SomeD [OF l] obtain i n where i: "p = blk_addr h i" "i < length (entries (table h))"
    "alloc_map (entries (table h)) i = Some n" "k = 4096 * n" by blast
  have "0 < n" using alloc_map_split [OF heap_ok_entries(1) [OF h] i(3)] by blast
  with i blk_addr_aligned [OF h] show ?thesis by simp
qed

interpretation kheap_page: page_allocator heap_ok live heap_malloc heap_free free_blocks
  by unfold_locales (blast intro: heap_malloc_page heap_free_avail dest: live_page)+

lemma kz_alloc_null:
  "heap_ok (kernel_heap s) \<Longrightarrow> request_ok sz \<Longrightarrow> kzalloc s sz = Inr (0, s') \<Longrightarrow> s' = s"
  using kheap.alloc_null by (auto simp: kzalloc_eq)

lemma kz_alloc_inv:
  "heap_ok (kernel_heap s) \<Longrightarrow> request_ok sz \<Longrightarrow> kzalloc s sz = Inr (p, s') \<Longrightarrow> heap_ok (kernel_heap s')"
  using kheap.alloc_inv by (fastforce simp: kzalloc_eq split: if_splits)

lemma kz_alloc_block:
  "heap_ok (kernel_heap s) \<Longrightarrow> request_ok sz \<Longrightarrow> kzalloc s sz = Inr (p, s') \<Longrightarrow> p \<noteq> 0 \<Longrightarrow>
    live (kernel_heap s) p = None \<and>
    (\<exists>k. unat sz \<le> k \<and> live (kernel_heap s') = (live (kernel_heap s))(p \<mapsto> k))"
  using kheap.alloc_block by (fastforce simp: kzalloc_eq)

lemma kz_release:
  "heap_ok (kernel_heap s) \<Longrightarrow> live (kernel_heap s) p = Some k \<Longrightarrow>
    \<exists>s'. kfree s p = Inr (0, s') \<and> heap_ok (kernel_heap s') \<and>
      live (kernel_heap s') = (live (kernel_heap s))(p := None)"
  using kheap.release_block by (fastforce simp: kfree_eq)

lemma kz_page:
  assumes "heap_ok (kernel_heap s)" "0 < unat sz" "unat sz \<le> 4096"
  shows "0 < free_blocks (kernel_heap s) \<Longrightarrow>
      \<exists>p s'. kzalloc s sz = Inr (p, s') \<and> p \<noteq> 0 \<and>
        free_blocks (kernel_heap s') = free_blocks (kernel_heap s) - 1"
    "free_blocks (kernel_heap s) = 0 \<Longrightarrow> kzalloc s sz = Inr (0, s)"
  using heap_malloc_page [OF assms] by (auto simp: kzalloc_def kmalloc_def)

lemma kz_release_avail:
  "heap_ok (kernel_heap s) \<Longrightarrow> live (kernel_heap s) p = Some k \<Longrightarrow> kfree s p = Inr (0, s') \<Longrightarrow>
    free_blocks (kernel_heap s) < free_blocks (kernel_heap s')"
  using heap_free_avail by (auto simp: kfree_eq)

lemma kz_memory:
  "kzalloc s sz = Inr (p, s') \<Longrightarrow> p \<noteq> 0 \<Longrightarrow> kmem s' x = (if in_block p (unat sz) x then 0 else kmem s x)"
  using unat_lt_2p32 [of sz] by (auto simp: kzalloc_eq memset_mem_eq simp del: unat_lt_2p32)

interpretation kz: zeroing_allocator "\<lambda>s. heap_ok (kernel_heap s)" "\<lambda>s. live (kernel_heap s)" kzalloc kfree
  "\<lambda>s. free_blocks (kernel_heap s)" kmem
  by unfold_locales (blast intro: kz_alloc_null kz_alloc_inv kz_release live_not_null kz_page kz_release_avail
    kz_memory dest: kz_alloc_block live_separate live_page)+

lemma heap_malloc_free_exact:
  assumes "heap_ok h" "request_ok sz" "heap_malloc h sz = Inr (p, h')" "p \<noteq> 0"
  shows "heap_free h' p = Inr (0, h)"
  using assms(1,2)
proof (cases rule: heap_malloc_cases)
  case (fit f)
  let ?es = "entries (table h)" and ?n = "blocks_for sz"
  have n: "0 < ?n" using blocks_for_bounds [OF assms(2)] by simp
  note af = after_malloc_facts [OF assms(1) fit(1) n]
  have h': "h' = after_malloc h f ?n" "p = blk_addr h f" using fit(2) assms(3) by auto
  have "heap_ok h'" "live h' p = Some (4096 * ?n)" using af(1,2) h' by auto
  from heap_free_eq [OF this] obtain i n where i: "p = blk_addr h' i" "i < 2 ^ 20" "4096 * ?n = 4096 * n"
    and eq: "heap_free h' p = Inr (0, set_entries h'
      (take i (entries (table h')) @ replicate n 0 @ drop (i + n) (entries (table h'))))" by blast
  have "f < 2 ^ 20" using af(5) n heap_ok_entries(3) [OF assms(1)] by simp
  moreover have "blk_addr h' i = blk_addr h i" using h'(1) by (simp add: heap_block_to_address_def set_entries_def)
  ultimately have "i = f" using i(1,2) h'(2) blk_addr_offset [of i h] blk_addr_offset [of f h]
    by (metis mult_cancel1 zero_neq_numeral)
  moreover have "length (taken_entries ?n) = ?n" using n by (auto simp: taken_entries_def taken_tail_def)
  moreover have "take f ?es @ replicate ?n 0 @ drop (f + ?n) ?es = ?es"
    using fit(1) by (intro free_run_split [symmetric] heap_ok_entries(1) [OF assms(1)]) (simp add: first_fit_def)
  moreover have "f \<le> length ?es" using af(5) by simp
  ultimately have "take i (entries (table h')) @ replicate n 0 @ drop (i + n) (entries (table h')) = ?es"
    using i(3) unfolding h'(1) by simp
  with eq have "heap_free h' p = Inr (0, set_entries h' ?es)" by (simp only:)
  also have "set_entries h' ?es = h" unfolding h'(1) by (simp add: set_entries_def)
  finally show ?thesis .
qed (use assms(3,4) in auto)

text \<open>
  The two facts the other components use: allocation of at most one block from a heap with a
  free block, and release of a live block, with the parts of the state they change.
\<close>

definition fresh_block :: "heap_desc \<Rightarrow> u32 \<Rightarrow> heap_desc \<Rightarrow> bool" where
  "fresh_block h p h' \<longleftrightarrow> p \<noteq> 0 \<and> p mod 4096 = 0 \<and> heap_ok h' \<and> free_blocks h' = free_blocks h - 1 \<and>
     live h p = None \<and> (\<exists>k. live h' = (live h)(p \<mapsto> k))"

lemma fresh_blockD:
  assumes "fresh_block h p h'"
  shows "p \<noteq> 0" "p mod 4096 = 0" "heap_ok h'" "free_blocks h' = free_blocks h - 1" "live h p = None"
    "live h' p \<noteq> None" "q \<noteq> p \<Longrightarrow> live h' q = live h q" "live h q \<noteq> None \<Longrightarrow> live h' q = live h q"
    "live h q \<noteq> None \<Longrightarrow> q \<noteq> p"
  using assms by (auto simp: fresh_block_def)

lemma kzalloc_small:
  assumes "heap_ok (kernel_heap s)" "0 < free_blocks (kernel_heap s)" "0 < unat sz" "unat sz \<le> 4096"
  shows "\<exists>p h m. kzalloc s sz = Inr (p, s\<lparr>kernel_heap := h, kmem := m\<rparr>) \<and> fresh_block (kernel_heap s) p h \<and>
    (\<forall>x. m x = (if in_block p (unat sz) x then 0 else kmem s x))"
proof -
  from kz.alloc_page_fresh [OF assms(1,3,4,2)] obtain p s' k where a: "kzalloc s sz = Inr (p, s')" "p \<noteq> 0"
    "p mod 4096 = 0" "heap_ok (kernel_heap s')" "free_blocks (kernel_heap s') = free_blocks (kernel_heap s) - 1"
    "live (kernel_heap s) p = None" "live (kernel_heap s') = (live (kernel_heap s))(p \<mapsto> k)"
    "\<forall>x. kmem s' x = (if in_block p (unat sz) x then 0 else kmem s x)" by metis
  from a(1,2) obtain h m where "s' = s\<lparr>kernel_heap := h, kmem := m\<rparr>" by (auto simp: kzalloc_eq)
  with a show ?thesis by (intro exI [of _ p] exI [of _ h] exI [of _ m]) (auto simp: fresh_block_def)
qed

lemma kfree_live:
  assumes "heap_ok (kernel_heap s)" "live (kernel_heap s) p \<noteq> None"
  shows "\<exists>h. kfree s p = Inr (0, s\<lparr>kernel_heap := h\<rparr>) \<and> heap_ok h \<and> live h = (live (kernel_heap s))(p := None) \<and>
    free_blocks (kernel_heap s) < free_blocks h"
proof -
  from assms(2) obtain k where k: "live (kernel_heap s) p = Some k" by blast
  from heap_free_live [OF assms(1) k] obtain h where h: "heap_free (kernel_heap s) p = Inr (0, h)" "heap_ok h"
    "live h = (live (kernel_heap s))(p := None)" by blast
  have "kfree s p = Inr (0, s\<lparr>kernel_heap := h\<rparr>)" using h(1) by (simp add: kfree_def)
  with h heap_free_avail [OF assms(1) k h(1)] show ?thesis by blast
qed

lemma kzalloc_kfree:
  assumes "heap_ok (kernel_heap s)" "request_ok sz" "kzalloc s sz = Inr (p, s')" "p \<noteq> 0"
  shows "kfree s' p = Inr (0, s'\<lparr>kernel_heap := kernel_heap s\<rparr>)"
  using assms heap_malloc_free_exact [OF assms(1,2)] by (auto simp: kzalloc_eq kfree_def)

section \<open>Requests of zero blocks\<close>

text \<open>
  A size of zero, and a size whose rounding wraps around, ask for zero blocks: the block
  counter never equals zero after its increment, so the scan ends at the trailing free run.
\<close>

lemma align_upper_wraps: "4294963200 < unat sz \<Longrightarrow> align_upper_block_boundary sz = 0"
proof -
  assume h: "4294963200 < unat sz"
  define r where "r = unat sz mod 4096"
  have q: "unat sz div 4096 = 1048575" using h unat_lt_2p32 [of sz] by linarith
  have x: "unat sz = 4294963200 + r" using q div_mult_mod_eq [of "unat sz" 4096] by (simp add: r_def)
  have m: "unat (sz mod 4096) = r" by (simp add: unat_mod r_def)
  have "0 < r" using h x by linarith
  then have "sz mod 4096 \<noteq> 0" using m by (metis less_irrefl unat_0)
  moreover have "unat (sz - sz mod 4096) = 4294963200"
    using x m by (subst unat_sub) (auto simp: word_le_nat_alt)
  then have "unat (sz - sz mod 4096 + 4096) = 0" by (simp add: unat_word_ariths)
  then have "sz - sz mod 4096 + 4096 = 0" by (simp only: unat_0_iff)
  ultimately show ?thesis by (simp add: align_upper_block_boundary_def)
qed

text \<open>The index at which the free blocks at the end of the table begin; its length if the last block is taken.\<close>

definition free_tail :: "u8 list \<Rightarrow> nat" where
  "free_tail es = length (dropWhile (\<lambda>e. e = 0) (rev es))"

lemma free_tail_snoc: "free_tail (xs @ [x]) = (if x = 0 then free_tail xs else Suc (length xs))"
  by (simp add: free_tail_def)

lemma free_tail_le: "free_tail es \<le> length es"
  unfolding free_tail_def by (metis length_dropWhile_le length_rev)

lemma free_tail_free: "free_tail es \<le> i \<Longrightarrow> i < length es \<Longrightarrow> es ! i = 0"
  by (induction es arbitrary: i rule: rev_induct) (auto simp: free_tail_snoc nth_append less_Suc_eq split: if_splits)

lemma free_tail_taken: "0 < free_tail es \<Longrightarrow> es ! (free_tail es - 1) \<noteq> 0"
proof (induction es rule: rev_induct)
  case (snoc x xs)
  then show ?case using free_tail_le [of xs] by (auto simp: free_tail_snoc nth_append)
qed (simp add: free_tail_def)

lemma free_tail_less: "free_tail es < length es \<longleftrightarrow> es \<noteq> [] \<and> last es = 0"
proof (cases es rule: rev_cases)
  case (snoc ys y)
  then show ?thesis using free_tail_le [of ys] by (simp add: free_tail_snoc)
qed (simp add: free_tail_def)

lemma heap_scan_zero:
  assumes "length (entries tab) = unat (total_entries tab)" "length (entries tab) < 2 ^ 19"
    "\<And>i. i < length (entries tab) \<Longrightarrow> heap_get_entry_type (entries tab ! i) = 0 \<longleftrightarrow> entries tab ! i = 0"
    "0 \<le> bc" "bc \<le> int i" "i \<le> length (entries tab)"
    "bs = (if free_tail (take i (entries tab)) = i then -1 else int (free_tail (take i (entries tab))))"
  shows "heap_scan tab 0 i bs bc = Inr (if free_tail (entries tab) = length (entries tab) then -1 else int (free_tail (entries tab)))"
  using assms(4-7)
proof (induction "length (entries tab) - i" arbitrary: i bs bc)
  case 0
  then show ?case using assms(1) by (subst heap_scan.simps) auto
next
  case (Suc k)
  then have i: "i < length (entries tab)" by simp
  have ne: "(of_int (bc + 1) :: u32) \<noteq> 0"
    using Suc.prems assms(2) by (subst of_int_eq_word_iff) auto
  have tk: "free_tail (take (Suc i) (entries tab)) = (if entries tab ! i = 0 then free_tail (take i (entries tab)) else Suc i)"
    using i by (simp add: take_Suc_conv_app_nth free_tail_snoc)
  have le: "free_tail (take i (entries tab)) \<le> i" using free_tail_le [of "take i (entries tab)"] i by simp
  note IH = Suc.hyps(1) [of "Suc i"]
  show ?case
  proof (cases "entries tab ! i = 0")
    case True
    have "heap_scan tab 0 (Suc i) (if bs = -1 then int i else bs) (bc + 1) =
        Inr (if free_tail (entries tab) = length (entries tab) then -1 else int (free_tail (entries tab)))"
      using Suc.prems Suc.hyps(2) i tk True le by (intro IH) auto
    then show ?thesis
      using True ne i assms(1) assms(3) [OF i] by (subst heap_scan.simps) (simp add: nth_r_of_nat Let_def)
  next
    case False
    have "heap_scan tab 0 (Suc i) (-1) 0 =
        Inr (if free_tail (entries tab) = length (entries tab) then -1 else int (free_tail (entries tab)))"
      using Suc.hyps(2) i tk False by (intro IH) auto
    then show ?thesis
      using False i assms(1) assms(3) [OF i] by (subst heap_scan.simps) (simp add: nth_r_of_nat)
  qed
qed

lemma heap_malloc_zero_blocks:
  assumes "heap_ok h" "sz = 0 \<or> 4294963200 < unat sz"
  shows "heap_malloc h sz = Inr (if free_tail (entries (table h)) = length (entries (table h)) then 0
    else heap_block_to_address h (of_nat (free_tail (entries (table h)))), h)"
proof -
  let ?es = "entries (table h)" and ?b = "free_tail (entries (table h))"
  note ok = heap_ok_entries [OF assms(1)]
  have fe: "heap_get_entry_type (?es ! i) = 0 \<longleftrightarrow> ?es ! i = 0" if "i < length ?es" for i
    using free_entry_iff [OF ok(1) [unfolded table_ok_def] that] .
  have scan: "heap_scan (table h) 0 0 (-1) 0 = Inr (if ?b = length ?es then -1 else int ?b)"
    by (rule heap_scan_zero [OF ok(2,3) fe]) (simp_all add: free_tail_def)
  have b: "?b \<le> length ?es" by (rule free_tail_le)
  have "mark_taken_loop ?es (int ?b) (sint (of_nat ?b - 1 :: u32)) e = Inr ?es" for e
  proof -
    have "sint (of_nat ?b - 1 :: u32) < int ?b"
    proof (cases "?b = 0")
      case False
      then have "unat (of_nat ?b - 1 :: u32) = ?b - 1"
        using b ok(3) by (subst unat_sub) (auto simp: unat_of_nat word_le_nat_alt)
      then show ?thesis using b ok(3) False by (subst sint_small) auto
    qed simp
    then show ?thesis by (subst mark_taken_loop.simps) simp
  qed
  moreover have "align_upper_block_boundary sz = 0"
    using assms(2) align_upper_wraps [of sz] by (elim disjE) (simp_all add: align_upper_block_boundary_def)
  ultimately show ?thesis
    using scan by - (cases "?b = length ?es", simp_all add: heap_malloc_def heap_malloc_blocks_def heap_get_start_block_index_def
      heap_mark_blocks_taken_def heap_block_to_address_def set_entries_def mult.commute)
qed

section \<open>Properties\<close>

definition demo_heap :: heap_desc where
  "demo_heap = \<lparr>table = \<lparr>entries = [0x41, 0, 0xC1, 0x01, 0, 0], total_entries = 6\<rparr>, start_addr = 0x01000000\<rparr>"

lemma demo_heap_ok: "heap_ok demo_heap"
  by (simp add: demo_heap_def heap_ok_def table_ok_def)

lemma demo_heap_simps [simp]:
  "entries (table demo_heap) = [0x41, 0, 0xC1, 0x01, 0, 0]" "start_addr demo_heap = 0x01000000"
  by (simp_all add: demo_heap_def)

text \<open>
  C1. First fit: when some run of free entries is long enough, \<open>heap_malloc\<close> returns the address
  of the lowest such run, marks exactly the blocks that the size rounds up to as one
  allocation, and keeps the heap well formed.
\<close>

theorem heap_malloc_first_fit:
  assumes "heap_ok h" "request_ok sz" "free_run (entries (table h)) i ((unat sz + 4095) div 4096)"
  shows "\<exists>f h'. heap_malloc h sz = Inr (start_addr h + of_nat (4096 * f), h') \<and> f \<le> i \<and>
    (\<forall>j < f. \<not> free_run (entries (table h)) j ((unat sz + 4095) div 4096)) \<and>
    entries (table h') = take f (entries (table h)) @ taken_entries ((unat sz + 4095) div 4096) @
      drop (f + (unat sz + 4095) div 4096) (entries (table h)) \<and>
    heap_ok h' \<and> live h' = (live h)(start_addr h + of_nat (4096 * f) \<mapsto> 4096 * ((unat sz + 4095) div 4096))"
  using assms(1,2)
proof (cases rule: heap_malloc_cases)
  case (fit f)
  have n: "0 < blocks_for sz" using blocks_for_bounds [OF assms(2)] by simp
  have "f \<le> i" using fit(1) assms(3) unfolding first_fit_def blocks_for_def by (metis not_le_imp_less)
  then show ?thesis
    using fit after_malloc_facts [OF assms(1) fit(1) n]
    by (auto simp: first_fit_def blocks_for_def heap_block_to_address_def mult.commute intro!: exI [of _ f])
qed (use assms(3) in \<open>auto simp: blocks_for_def\<close>)

theorem heap_malloc_first_fit_witness:
  "\<exists>f h'. heap_malloc demo_heap 5000 = Inr (0x01000000 + of_nat (4096 * f), h') \<and> f \<le> 4 \<and> heap_ok h'"
proof -
  have "free_run (entries (table demo_heap)) 4 ((unat (5000 :: u32) + 4095) div 4096)"
    by (auto simp: free_run_def heap_get_entry_type_def less_2_cases_iff)
  from heap_malloc_first_fit [OF demo_heap_ok _ this] show ?thesis
    by (auto simp: request_ok_def)
qed

text \<open>
  C5. Without a long enough run \<open>heap_malloc\<close> returns NULL and leaves the heap alone only when
  the last block of the heap is taken. When the last block is free, the scan returns the start of
  the trailing run although it is too short, and marking it writes past the table.
\<close>

theorem heap_malloc_no_run:
  assumes "heap_ok h" "request_ok sz" "\<forall>i. \<not> free_run (entries (table h)) i ((unat sz + 4095) div 4096)"
  shows "heap_malloc h sz =
    (if entries (table h) \<noteq> [] \<and> last (entries (table h)) = 0 then Inl OutOfBounds else Inr (0, h))"
  using assms(1,2)
  by (cases rule: heap_malloc_cases) (use assms(3) in \<open>auto simp: blocks_for_def first_fit_def\<close>)

theorem heap_malloc_no_run_witness: "heap_malloc demo_heap 12288 = Inl OutOfBounds"
proof -
  have "\<forall>i. \<not> free_run (entries (table demo_heap)) i ((unat (12288 :: u32) + 4095) div 4096)"
  proof (intro allI notI)
    fix i assume "free_run (entries (table demo_heap)) i ((unat (12288 :: u32) + 4095) div 4096)"
    then have f: "i + 3 \<le> 6" "\<forall>k < 3. heap_get_entry_type ([0x41, 0, 0xC1, 0x01, 0, 0] ! (i + k)) = 0"
      by (auto simp: free_run_def)
    then have "i = 0 \<or> i = 1 \<or> i = 2 \<or> i = 3" by linarith
    with f(2) [rule_format, of 0] f(2) [rule_format, of 1] show False
      by (auto simp: heap_get_entry_type_def)
  qed
  from heap_malloc_no_run [OF demo_heap_ok _ this] show ?thesis
    by (simp add: request_ok_def)
qed

text \<open>
  C2. Memory safety of allocation: the bytes of a successful \<open>kzalloc\<close> belong to no block that was
  live before, every earlier block stays live with its size, the new bytes are zero, and no other
  byte of memory changes.
\<close>

theorem kzalloc_fresh_zeroed:
  assumes "heap_ok (kernel_heap s)" "request_ok sz" "kzalloc s sz = Inr (p, s')" "p \<noteq> 0"
  shows "(\<forall>q n x. live (kernel_heap s) q = Some n \<longrightarrow> in_block p (unat sz) x \<longrightarrow> \<not> in_block q n x) \<and>
    (\<forall>q n. live (kernel_heap s) q = Some n \<longrightarrow> live (kernel_heap s') q = Some n) \<and>
    (\<forall>x. kmem s' x = (if in_block p (unat sz) x then 0 else kmem s x)) \<and> heap_ok (kernel_heap s')"
proof (intro conjI allI impI)
  fix q n x assume q: "live (kernel_heap s) q = Some n"
  show "live (kernel_heap s') q = Some n" by (rule kz.alloc_keeps [OF assms(1-3) q])
  assume "in_block p (unat sz) x"
  then have "unat (x - p) < unat sz" by (simp add: in_block_def)
  from kz.alloc_separate [OF assms q this] show "\<not> in_block q n x" by simp
next
  fix x
  show "kmem s' x = (if in_block p (unat sz) x then 0 else kmem s x)"
    by (rule kz_memory [OF assms(3,4)])
next
  show "heap_ok (kernel_heap s')" by (rule kz.alloc_inv [OF assms(1-3)])
qed

theorem kzalloc_fresh_zeroed_witness:
  "\<exists>s' p. kzalloc \<lparr>kernel_heap = demo_heap, kmem = (\<lambda>_. 7)\<rparr> 4 = Inr (p, s') \<and> p \<noteq> 0 \<and>
     kmem s' p = 0 \<and> live (kernel_heap s') 0x01002000 = Some 8192"
proof -
  let ?s = "\<lparr>kernel_heap = demo_heap, kmem = (\<lambda>_. 7)\<rparr>"
  obtain p s' where a: "kzalloc ?s 4 = Inr (p, s')" "p \<noteq> 0"
    using kz.alloc_page [of ?s 4] demo_heap_ok by (auto simp: free_blocks_def)
  have "live demo_heap 0x01002000 = Some 8192" by (simp add: demo_heap_def live_def alloc_map_def)
  with kzalloc_fresh_zeroed [OF _ _ a] demo_heap_ok
  have "kmem s' p = 0 \<and> live (kernel_heap s') 0x01002000 = Some 8192"
    by (auto simp: request_ok_def in_block_def)
  with a show ?thesis by blast
qed

text \<open>
  C3. Freeing: \<open>kfree\<close> of a live block succeeds, removes exactly that block from the live blocks,
  keeps the heap well formed and strictly increases the number of free blocks.
\<close>

theorem kfree_releases:
  assumes "heap_ok (kernel_heap s)" "live (kernel_heap s) p = Some n"
  shows "\<exists>s'. kfree s p = Inr (0, s') \<and> heap_ok (kernel_heap s') \<and>
    live (kernel_heap s') = (live (kernel_heap s))(p := None) \<and>
    free_blocks (kernel_heap s) < free_blocks (kernel_heap s') \<and> kmem s' = kmem s"
proof -
  from kz.release_block [OF assms] obtain s' where s': "kfree s p = Inr (0, s')" "heap_ok (kernel_heap s')"
    "live (kernel_heap s') = (live (kernel_heap s))(p := None)" by blast
  moreover from s'(1) have "kmem s' = kmem s" by (auto simp: kfree_eq)
  ultimately show ?thesis using kz.release_avail [OF assms s'(1)] by blast
qed

theorem kfree_releases_witness:
  "\<exists>s'. kfree \<lparr>kernel_heap = demo_heap, kmem = (\<lambda>_. 7)\<rparr> 0x01002000 = Inr (0, s') \<and>
     live (kernel_heap s') = (live demo_heap)(0x01002000 := None)"
proof -
  have "live demo_heap 0x01002000 = Some 8192" by (simp add: demo_heap_def live_def alloc_map_def)
  with kfree_releases [of "\<lparr>kernel_heap = demo_heap, kmem = (\<lambda>_. 7)\<rparr>"] demo_heap_ok show ?thesis
    by auto
qed

text \<open>
  C4. Round trip: freeing the address that a successful \<open>heap_malloc\<close> returned gives back exactly
  the heap before the allocation, table bytes included.
\<close>

theorem heap_malloc_then_free:
  assumes "heap_ok h" "request_ok sz" "heap_malloc h sz = Inr (p, h')" "p \<noteq> 0"
  shows "heap_free h' p = Inr (0, h)"
  by (rule heap_malloc_free_exact [OF assms])

theorem heap_malloc_then_free_witness:
  "case heap_malloc demo_heap 100 of Inr (p, h') \<Rightarrow> p = 0x01001000 \<and> heap_free h' p = Inr (0, demo_heap) | _ \<Rightarrow> False"
proof -
  have "heap_malloc demo_heap 100 = Inr (0x01001000, set_entries demo_heap [0x41, 0x41, 0xC1, 0x01, 0, 0])"
    by code_simp
  with heap_malloc_then_free [OF demo_heap_ok _ this] show ?thesis by (simp add: request_ok_def)
qed

text \<open>
  C6. A request of zero bytes, or of more than 0xFFFFF000 bytes (whose rounding to whole blocks
  wraps around to zero), is not refused when the last block is free: the allocator returns the
  non-NULL address of the first of the free blocks at the end of the heap and marks nothing, so
  that the block stays free. When the last block is taken it returns NULL. The heap is unchanged.
\<close>

theorem heap_malloc_zero_or_huge:
  assumes "heap_ok h" "sz = 0 \<or> 0xFFFFF000 < unat sz"
  shows "if entries (table h) \<noteq> [] \<and> last (entries (table h)) = 0
    then \<exists>b < length (entries (table h)). heap_malloc h sz = Inr (start_addr h + of_nat (4096 * b), h) \<and>
      start_addr h + of_nat (4096 * b) \<noteq> 0 \<and> (\<forall>i. b \<le> i \<and> i < length (entries (table h)) \<longrightarrow> entries (table h) ! i = 0) \<and>
      (0 < b \<longrightarrow> entries (table h) ! (b - 1) \<noteq> 0)
    else heap_malloc h sz = Inr (0, h)"
proof (cases "entries (table h) \<noteq> [] \<and> last (entries (table h)) = 0")
  case True
  let ?b = "free_tail (entries (table h))"
  have b: "?b < length (entries (table h))" using True free_tail_less by blast
  then have "heap_malloc h sz = Inr (blk_addr h ?b, h)" "blk_addr h ?b \<noteq> 0"
    using heap_malloc_zero_blocks [OF assms(1), of sz] assms(2) blk_addr_not_null [OF assms(1), of ?b] by simp_all
  then show ?thesis using True b free_tail_free free_tail_taken
    by (auto simp: heap_block_to_address_def mult.commute intro!: exI [of _ ?b])
next
  case False
  then have "free_tail (entries (table h)) = length (entries (table h))"
    using free_tail_less [of "entries (table h)"] free_tail_le [of "entries (table h)"] by linarith
  then show ?thesis using heap_malloc_zero_blocks [OF assms(1), of sz] assms(2) False by auto
qed

theorem heap_malloc_zero_or_huge_witness:
  "heap_malloc demo_heap 0xFFFFFFFF = Inr (0x01004000, demo_heap)"
proof -
  have last: "entries (table demo_heap) \<noteq> [] \<and> last (entries (table demo_heap)) = 0" by simp
  have big: "(0xFFFFFFFF :: u32) = 0 \<or> 0xFFFFF000 < unat (0xFFFFFFFF :: u32)" by simp
  obtain b where b: "b < length (entries (table demo_heap))"
    "heap_malloc demo_heap 0xFFFFFFFF = Inr (start_addr demo_heap + of_nat (4096 * b), demo_heap)"
    "\<forall>i. b \<le> i \<and> i < length (entries (table demo_heap)) \<longrightarrow> entries (table demo_heap) ! i = 0"
    "0 < b \<longrightarrow> entries (table demo_heap) ! (b - 1) \<noteq> 0"
    using heap_malloc_zero_or_huge [OF demo_heap_ok big] unfolding if_P [OF last] by (elim exE conjE) (rule that)
  have "b < 6" using b(1) by simp
  moreover have "\<not> b \<le> 3" using b(3) [rule_format, of 3] by (intro notI) simp
  moreover have "b \<noteq> 5" using b(4) by (intro notI) simp
  ultimately have "b = 4" by linarith
  then show ?thesis using b(2) by simp
qed

lemma kernel_heap_init_result:
  assumes "length table_mem = 25600"
  shows "\<exists>s'. kernel_heap_init table_mem s = Inr (0, s') \<and> heap_ok (kernel_heap s') \<and>
    start_addr (kernel_heap s') = 0x01000000 \<and> (\<forall>p. live (kernel_heap s') p = None) \<and>
    free_blocks (kernel_heap s') = 25600 \<and> kmem s' = kmem s"
proof -
  define h where "h = \<lparr>table = \<lparr>entries = replicate 25600 0, total_entries = 25600\<rparr>, start_addr = (0x01000000 :: u32)\<rparr>"
  have "kernel_heap_init table_mem s = Inr (0, s\<lparr>kernel_heap := h\<rparr>)"
    using assms by (simp add: kernel_heap_init_def heap_create_def heap_valid_alignment_def
      heap_valid_table_def memset_eq h_def Let_def)
  moreover have "heap_ok h"
    by (simp add: heap_ok_def h_def table_ok_def)
  moreover have "live h p = None" for p
    by (simp add: live_def h_def alloc_map_def Let_def)
  moreover have "free_blocks h = 25600"
    by (simp add: free_blocks_def h_def)
  moreover have "start_addr h = 0x01000000" by (simp add: h_def)
  ultimately show ?thesis by (intro exI [of _ "s\<lparr>kernel_heap := h\<rparr>"]) simp
qed

text \<open>
  C40. \<open>kernel_heap_init\<close> on a table of 25600 bytes, whatever they hold, succeeds: it gives a well
  formed heap at 16 MiB with no live block and all 25600 blocks free.
\<close>

theorem kernel_heap_init_empty:
  assumes "length table_mem = 25600"
  shows "\<exists>s'. kernel_heap_init table_mem s = Inr (0, s') \<and> heap_ok (kernel_heap s') \<and>
    start_addr (kernel_heap s') = 0x01000000 \<and> (\<forall>p. live (kernel_heap s') p = None) \<and>
    free_blocks (kernel_heap s') = 25600 \<and> kmem s' = kmem s"
  by (rule kernel_heap_init_result [OF assms])

theorem kernel_heap_init_empty_witness:
  "\<exists>s'. kernel_heap_init (replicate 25600 0xFF) \<lparr>kernel_heap = demo_heap, kmem = (\<lambda>_. 7)\<rparr> = Inr (0, s') \<and>
     free_blocks (kernel_heap s') = 25600"
  using kernel_heap_init_empty [of "replicate 25600 0xFF"] by fastforce

end
