(* ===== verification/Paging.thy ===== *)
theory Paging
  imports Heap_Alloc
begin

text \<open>
  Two-level paging: \<^verbatim>\<open>src/src/memory/paging/paging.c\<close> and \<^verbatim>\<open>paging.h\<close>. Page directories, page tables
  and the one-word \<^verbatim>\<open>struct paging_desc\<close> live in the physical memory \<open>kmem\<close>, at addresses given
  out by \<open>kzalloc\<close>. The state is extended by the static \<^verbatim>\<open>current_pgd\<close> and the register cr3 that
  \<^verbatim>\<open>paging_load_pgd\<close> (paging.asm) writes.
\<close>

section \<open>Data\<close>

abbreviation (input) PAGING_CACHE_DISABLE :: u32 where "PAGING_CACHE_DISABLE \<equiv> 0x10"
abbreviation (input) PAGING_WRITE_THROUGH :: u32 where "PAGING_WRITE_THROUGH \<equiv> 0x08"
abbreviation (input) PAGING_USER_SUPERVISOR :: u32 where "PAGING_USER_SUPERVISOR \<equiv> 0x04"
abbreviation (input) PAGING_READ_WRITE :: u32 where "PAGING_READ_WRITE \<equiv> 0x02"
abbreviation (input) PAGING_PRESENT :: u32 where "PAGING_PRESENT \<equiv> 0x01"
abbreviation (input) PGD_ENTRY_TABLE_ADDR :: u32 where "PGD_ENTRY_TABLE_ADDR \<equiv> 0xfffff000"
abbreviation (input) PTE_PAGE_FRAME_ADDR :: u32 where "PTE_PAGE_FRAME_ADDR \<equiv> 0xfffff000"
abbreviation (input) PAGING_TABLE_ENTRIES :: nat where "PAGING_TABLE_ENTRIES \<equiv> 1024"
abbreviation (input) PAGING_DIR_ENTRIES :: nat where "PAGING_DIR_ENTRIES \<equiv> 1024"
abbreviation (input) PAGING_PAGE_SIZE :: u32 where "PAGING_PAGE_SIZE \<equiv> 4096"

record paging_state = kstate +
  current_pgd :: u32
  cr3 :: u32

text \<open>Element \<open>i\<close> of an array of 32-bit words in memory; the array must not be the null pointer.\<close>

definition idx_load :: "mem \<Rightarrow> u32 \<Rightarrow> u32 \<Rightarrow> u32 outcome" where
  "idx_load m base i = (if base = 0 then Inl NullDeref else Inr (load32 m (base + 4 * i)))"

definition idx_store :: "mem \<Rightarrow> u32 \<Rightarrow> u32 \<Rightarrow> u32 \<Rightarrow> mem outcome" where
  "idx_store m base i v = (if base = 0 then Inl NullDeref else Inr (store32 m (base + 4 * i) v))"

section \<open>Operations\<close>

definition paging_is_aligned :: "u32 \<Rightarrow> bool" where
  "paging_is_aligned addr \<longleftrightarrow> addr mod PAGING_PAGE_SIZE = 0"

text \<open>The inner loop of \<^verbatim>\<open>init_page_tables\<close>: it fills the page table at \<^verbatim>\<open>pte\<close>.\<close>

function init_pte_loop :: "mem \<Rightarrow> u32 \<Rightarrow> u32 \<Rightarrow> u8 \<Rightarrow> nat \<Rightarrow> mem outcome" where
  "init_pte_loop m pte offset flags b =
     (if b < PAGING_TABLE_ENTRIES
      then bind_r (idx_store m pte (of_nat b) ((offset + of_nat b * PAGING_PAGE_SIZE) OR ucast flags)) (\<lambda>m.
        init_pte_loop m pte offset flags (Suc b))
      else Inr m)"
  by pat_completeness auto
termination
  by (relation "measure (\<lambda>(m, p, off, f, b). 1024 - b)") auto

declare init_pte_loop.simps [simp del]

text \<open>
  The outer loop. The source's \<^verbatim>\<open>int offset\<close> passes \<^verbatim>\<open>INT_MAX\<close> half way; the model wraps around as
  the unoptimised i686 code does.
\<close>

function init_pgd_loop :: "'a kstate_scheme \<Rightarrow> u32 \<Rightarrow> u8 \<Rightarrow> nat \<Rightarrow> u32 \<Rightarrow> 'a kstate_scheme outcome" where
  "init_pgd_loop s pgd flags i offset =
     (if i < PAGING_DIR_ENTRIES
      then bind_r (kzalloc s (4 * of_nat PAGING_TABLE_ENTRIES)) (\<lambda>(pte, s).
        bind_r (init_pte_loop (kmem s) pte offset flags 0) (\<lambda>m.
          bind_r (idx_store m pgd (of_nat i) (pte OR ucast flags OR PAGING_READ_WRITE)) (\<lambda>m.
            init_pgd_loop (s\<lparr>kmem := m\<rparr>) pgd flags (Suc i)
              (offset + of_nat PAGING_TABLE_ENTRIES * PAGING_PAGE_SIZE))))
      else Inr s)"
  by pat_completeness auto
termination
  by (relation "measure (\<lambda>(s, p, f, i, off). 1024 - i)") auto

definition init_page_tables :: "'a kstate_scheme \<Rightarrow> u8 \<Rightarrow> (u32 \<times> 'a kstate_scheme) outcome" where
  "init_page_tables s flags =
     bind_r (kzalloc s (4 * of_nat PAGING_DIR_ENTRIES)) (\<lambda>(pgd, s).
       bind_r (init_pgd_loop s pgd flags 0 0) (\<lambda>s.
         bind_r (kzalloc s 4) (\<lambda>(paging, s).
           bind_r (idx_store (kmem s) paging 0 pgd) (\<lambda>m.
             Inr (paging, s\<lparr>kmem := m\<rparr>)))))"

definition get_pgd :: "mem \<Rightarrow> u32 \<Rightarrow> u32 outcome" where
  "get_pgd m paging = idx_load m paging 0"

definition paging_switch :: "'a paging_state_scheme \<Rightarrow> u32 \<Rightarrow> 'a paging_state_scheme outcome" where
  "paging_switch s paging_desc =
     bind_r (idx_load (kmem s) paging_desc 0) (\<lambda>pgd. Inr (s\<lparr>cr3 := pgd, current_pgd := pgd\<rparr>))"

text \<open>Returns the status and, when it is 0, the two indexes written through the out parameters.\<close>

definition paging_get_indexes :: "u32 \<Rightarrow> int \<times> u32 \<times> u32" where
  "paging_get_indexes virtual_address =
     (if \<not> paging_is_aligned virtual_address then (- EINVARG, 0, 0)
      else (0, virtual_address div (of_nat PAGING_TABLE_ENTRIES * PAGING_PAGE_SIZE),
        virtual_address mod (of_nat PAGING_TABLE_ENTRIES * PAGING_PAGE_SIZE) div PAGING_PAGE_SIZE))"

definition paging_set :: "mem \<Rightarrow> u32 \<Rightarrow> u32 \<Rightarrow> u32 \<Rightarrow> (int \<times> mem) outcome" where
  "paging_set m pgd virtual_address val =
     (if \<not> paging_is_aligned virtual_address then Inr (- EINVARG, m)
      else let (rc, pgd_index, table_index) = paging_get_indexes virtual_address in
        if rc < 0 then Inr (rc, m)
        else bind_r (idx_load m pgd pgd_index) (\<lambda>pgd_entry.
          bind_r (idx_store m (pgd_entry AND PGD_ENTRY_TABLE_ADDR) table_index val) (\<lambda>m. Inr (0, m))))"

text \<open>
  The mask is applied with \<open>*\<close> in the source, not with \<^verbatim>\<open>&\<close>.
\<close>

function free_tables_loop :: "'a kstate_scheme \<Rightarrow> u32 \<Rightarrow> nat \<Rightarrow> 'a kstate_scheme outcome" where
  "free_tables_loop s paging i =
     (if i < PAGING_DIR_ENTRIES
      then bind_r (idx_load (kmem s) paging 0) (\<lambda>pgd.
        bind_r (idx_load (kmem s) pgd (of_nat i)) (\<lambda>pgd_entry.
          bind_r (kfree s (pgd_entry * NOT 0x00000FFF)) (\<lambda>(rc, s).
            free_tables_loop s paging (Suc i))))
      else Inr s)"
  by pat_completeness auto
termination
  by (relation "measure (\<lambda>(s, p, i). 1024 - i)") auto

definition free_page_tables :: "'a kstate_scheme \<Rightarrow> u32 \<Rightarrow> 'a kstate_scheme outcome" where
  "free_page_tables s paging =
     bind_r (free_tables_loop s paging 0) (\<lambda>s.
       bind_r (idx_load (kmem s) paging 0) (\<lambda>pgd.
         bind_r (kfree s pgd) (\<lambda>(rc, s).
           bind_r (kfree s paging) (\<lambda>(rc, s). Inr s))))"

function map_range_loop :: "mem \<Rightarrow> u32 \<Rightarrow> u32 \<Rightarrow> u32 \<Rightarrow> int \<Rightarrow> int \<Rightarrow> int \<Rightarrow> int \<Rightarrow> (int \<times> mem) outcome" where
  "map_range_loop m paging_desc virt_addr phys_addr num_pages pg_prot i rc =
     (if i < num_pages
      then bind_r (idx_load m paging_desc 0) (\<lambda>pgd.
        bind_r (paging_set m pgd virt_addr (phys_addr OR of_int pg_prot)) (\<lambda>(rc, m).
          if rc < 0 then Inr (rc, m)
          else map_range_loop m paging_desc (virt_addr + PAGING_PAGE_SIZE) (phys_addr + PAGING_PAGE_SIZE)
                 num_pages pg_prot (i + 1) rc))
      else Inr (rc, m))"
  by pat_completeness auto
termination
  by (relation "measure (\<lambda>(m, d, v, p, n, prot, i, rc). nat (n - i))") auto

definition paging_map_range :: "mem \<Rightarrow> u32 \<Rightarrow> u32 \<Rightarrow> u32 \<Rightarrow> int \<Rightarrow> int \<Rightarrow> (int \<times> mem) outcome" where
  "paging_map_range m paging_desc virt_addr phys_addr num_pages pg_prot =
     (if \<not> paging_is_aligned virt_addr \<or> \<not> paging_is_aligned phys_addr then Inr (- EINVARG, m)
      else map_range_loop m paging_desc virt_addr phys_addr num_pages pg_prot 0 0)"

definition paging_create_mapping :: "mem \<Rightarrow> u32 \<Rightarrow> u32 \<Rightarrow> u32 \<Rightarrow> u32 \<Rightarrow> int \<Rightarrow> (int \<times> mem) outcome" where
  "paging_create_mapping m paging_desc virt_addr phys_addr phys_end_addr pg_prot =
     (if \<not> paging_is_aligned virt_addr \<or> \<not> paging_is_aligned phys_addr \<or> \<not> paging_is_aligned phys_end_addr
      then Inr (- EINVARG, m)
      else if phys_end_addr < phys_addr then Inr (- EINVARG, m)
      else let total_bytes = phys_end_addr - phys_addr;
               total_pages = sint (total_bytes div PAGING_PAGE_SIZE) in
        paging_map_range m paging_desc virt_addr phys_addr total_pages pg_prot)"

definition paging_align_address :: "u32 \<Rightarrow> u32" where
  "paging_align_address addr =
     (if paging_is_aligned addr then addr else addr + PAGING_PAGE_SIZE - addr mod PAGING_PAGE_SIZE)"

definition paging_align_to_lower_page :: "u32 \<Rightarrow> u32" where
  "paging_align_to_lower_page addr =
     (if paging_is_aligned addr then addr else addr - addr mod PAGING_PAGE_SIZE)"

definition paging_get_pte :: "mem \<Rightarrow> u32 \<Rightarrow> u32 \<Rightarrow> u32 outcome" where
  "paging_get_pte m task_page_directory virt_addr =
     (let (rc, directory_index, table_index) = paging_get_indexes virt_addr in
      if rc < 0 then Inr (of_int rc)
      else bind_r (idx_load m task_page_directory directory_index) (\<lambda>page_directory_entry.
        idx_load m (page_directory_entry AND PGD_ENTRY_TABLE_ADDR) table_index))"

definition paging_get_physical_address :: "mem \<Rightarrow> u32 \<Rightarrow> u32 \<Rightarrow> u32 outcome" where
  "paging_get_physical_address m task_page_directory virt_addr =
     (let virt_addr_aligned = paging_align_to_lower_page virt_addr;
          difference = virt_addr - virt_addr_aligned in
      bind_r (paging_get_pte m task_page_directory virt_addr_aligned) (\<lambda>pte.
        Inr ((pte AND 0xfffff000) + difference)))"

declare init_pgd_loop.simps [simp del] free_tables_loop.simps [simp del]
  map_range_loop.simps [simp del]

section \<open>Reference: the page walk of the processor\<close>

text \<open>
  The translation that the 80386 and its successors perform without large pages and without
  PAE: the two indexes and the offset are bit fields of the linear address, and both entries
  must have the present bit.
\<close>

definition mmu_pde :: "mem \<Rightarrow> u32 \<Rightarrow> u32 \<Rightarrow> u32" where
  "mmu_pde m dir va = load32 m (dir + 4 * drop_bit 22 va)"

definition mmu_pte :: "mem \<Rightarrow> u32 \<Rightarrow> u32 \<Rightarrow> u32" where
  "mmu_pte m dir va = load32 m ((mmu_pde m dir va AND 0xfffff000) + 4 * (drop_bit 12 va AND 0x3ff))"

definition mmu_translate :: "mem \<Rightarrow> u32 \<Rightarrow> u32 \<Rightarrow> u32 option" where
  "mmu_translate m dir va =
     (if bit (mmu_pde m dir va) 0 \<and> bit (mmu_pte m dir va) 0
      then Some ((mmu_pte m dir va AND 0xfffff000) OR (va AND 0xfff)) else None)"

text \<open>
  A set of page tables is well formed when the directory and the 1024 tables are pairwise
  different page frames other than frame 0.
\<close>

definition pt_frame :: "mem \<Rightarrow> u32 \<Rightarrow> nat \<Rightarrow> u32" where
  "pt_frame m pgd i = load32 m (pgd + 4 * of_nat i) AND 0xfffff000"

definition page_tables_ok :: "mem \<Rightarrow> u32 \<Rightarrow> bool" where
  "page_tables_ok m pgd \<longleftrightarrow> pgd mod 4096 = 0 \<and> pgd \<noteq> 0 \<and>
     (\<forall>i < 1024. pt_frame m pgd i \<noteq> 0 \<and> pt_frame m pgd i \<noteq> pgd \<and>
       (\<forall>j < i. pt_frame m pgd j \<noteq> pt_frame m pgd i))"

section \<open>Word lemmas\<close>

lemma aligned_iff_take_bit: "(a :: u32) mod 4096 = 0 \<longleftrightarrow> take_bit 12 a = 0"
  by (simp add: take_bit_eq_mod)

lemma aligned_bit: "(a :: u32) mod 4096 = 0 \<Longrightarrow> n < 12 \<Longrightarrow> \<not> bit a n"
proof -
  assume "a mod 4096 = 0" and n: "n < 12"
  then have "\<not> bit (take_bit 12 a) n" by (simp add: aligned_iff_take_bit)
  with n show ?thesis by (simp add: bit_take_bit_iff)
qed

lemma frame_mask_eq: "(0xfffff000 :: u32) = NOT (mask 12)"
  by (simp add: mask_eq_exp_minus_1)

lemma frame_mask: "(w :: u32) AND 0xfffff000 = w - w mod 4096"
proof -
  have "w AND NOT (mask 12) = push_bit 12 (drop_bit 12 w)"
    by (rule bit_word_eqI) (auto simp: bit_simps)
  also have "\<dots> = w - take_bit 12 w"
    using bits_ident [of 12 w] by (simp add: eq_diff_eq)
  finally show ?thesis unfolding frame_mask_eq by (simp add: take_bit_eq_mod)
qed

lemma frame_mask_mod: "(w AND 0xfffff000 :: u32) mod 4096 = 0"
proof -
  have "take_bit 12 (w AND NOT (mask 12)) = 0"
    by (rule bit_word_eqI) (auto simp: bit_simps)
  then show ?thesis unfolding frame_mask_eq aligned_iff_take_bit .
qed

lemma frame_mask_or:
  assumes "(a :: u32) mod 4096 = 0" "unat f < 4096"
  shows "(a OR f) AND 0xfffff000 = a"
proof -
  have f: "take_bit 12 f = f" using assms(2) by (simp add: take_bit_eq_mod word_unat_eq_iff unat_mod)
  have "(a OR take_bit 12 f) AND NOT (mask 12) = a"
    by (rule bit_word_eqI) (auto simp: bit_simps dest: aligned_bit [OF assms(1)] not_le_imp_less)
  then show ?thesis unfolding frame_mask_eq f .
qed

lemma index_fields:
  "(va :: u32) div 4194304 = drop_bit 22 va" "va mod 4194304 div 4096 = drop_bit 12 va AND 0x3ff"
  "va mod 4096 = va AND 0xfff"
proof -
  have a: "va div 4194304 = drop_bit 22 va" "va mod 4194304 = take_bit 22 va" for va :: u32
    by (simp_all add: drop_bit_eq_div take_bit_eq_mod)
  have b: "va div 4096 = drop_bit 12 va" "va mod 4096 = take_bit 12 va" for va :: u32
    by (simp_all add: drop_bit_eq_div take_bit_eq_mod)
  have m: "(0x3ff :: u32) = mask 10" "(0xfff :: u32) = mask 12" by (simp_all add: mask_eq_exp_minus_1)
  show "va div 4194304 = drop_bit 22 va" by (rule a)
  show "va mod 4194304 div 4096 = drop_bit 12 va AND 0x3ff"
    unfolding a b m by (rule bit_word_eqI) (auto simp: bit_simps)
  show "va mod 4096 = va AND 0xfff" unfolding b m by (simp add: take_bit_eq_mask)
qed

lemma index_bounds: "unat ((va :: u32) div 4194304) < 1024" "unat (va mod 4194304 div 4096) < 1024"
proof -
  show "unat (va div 4194304) < 1024" using unat_lt_2p32 [of va] by (simp add: unat_div less_mult_imp_div_less del: unat_lt_2p32)
  show "unat (va mod 4194304 div 4096) < 1024" by (simp add: unat_div unat_mod less_mult_imp_div_less)
qed

text \<open>The page frame and the word of a table entry are determined by the address divided by 4.\<close>

lemma entry_block_iff:
  assumes "(a :: u32) mod 4096 = 0" "unat k < 1024"
  shows "in_block (a + 4 * k) 4 x \<longleftrightarrow> unat x div 4 = 1024 * (unat a div 4096) + unat k"
proof -
  define q where "q = unat a div 4096"
  have "unat (a mod 4096) = 0" using assms(1) by simp
  then have "unat a mod 4096 = 0" by (simp add: unat_mod)
  then have a: "unat a = 4096 * q" unfolding q_def by (metis add_0_right mult_div_mod_eq)
  have q: "q < 1048576" using unat_lt_2p32 [of a] unfolding a by linarith
  have k: "unat (4 * k) = 4 * unat k" using assms(2) by (simp add: unat_word_ariths)
  have s: "unat (a + 4 * k) = 4096 * q + 4 * unat k"
    using a q k assms(2) by (simp add: unat_word_ariths)
  have "in_block (a + 4 * k) 4 x \<longleftrightarrow> 4096 * q + 4 * unat k \<le> unat x \<and> unat x < 4096 * q + 4 * unat k + 4"
    using q assms(2) by (subst in_block_iff) (simp_all add: s)
  also have "\<dots> \<longleftrightarrow> unat x div 4 = 1024 * q + unat k" by linarith
  finally show ?thesis by (simp add: q_def)
qed

lemma page_entry_inj:
  assumes "(a :: u32) mod 4096 = 0" "b mod 4096 = 0" "unat k < 1024" "unat l < 1024"
    "1024 * (unat a div 4096) + unat k = 1024 * (unat b div 4096) + unat l"
  shows "a = b \<and> k = l"
proof -
  have d: "unat a div 4096 = unat b div 4096" using assms(3-5) by linarith
  moreover have "unat k = unat l" using assms(5) unfolding d by simp
  moreover have "unat (a mod 4096) = 0" "unat (b mod 4096) = 0" using assms(1,2) by simp_all
  then have "unat a mod 4096 = 0" "unat b mod 4096 = 0" by (simp_all add: unat_mod)
  ultimately show ?thesis by (metis mult_div_mod_eq word_unat_eq_iff)
qed

lemma load_store_entry:
  assumes "(a :: u32) mod 4096 = 0" "b mod 4096 = 0" "unat k < 1024" "unat l < 1024"
  shows "load32 (store32 m (a + 4 * k) v) (b + 4 * l) =
    (if a = b \<and> k = l then v else load32 m (b + 4 * l))"
proof (cases "a = b \<and> k = l")
  case False
  have "load32 (store32 m (a + 4 * k) v) (b + 4 * l) = load32 m (b + 4 * l)"
  proof (rule load32_cong)
    fix x assume "in_block (b + 4 * l) 4 x"
    with False page_entry_inj [OF assms] have "\<not> in_block (a + 4 * k) 4 x"
      by (simp add: entry_block_iff assms) metis
    then show "store32 m (a + 4 * k) v x = m x" by (rule store32_frame)
  qed
  with False show ?thesis by (simp only: if_not_P if_False)
qed simp

lemma page_entry_in_block:
  assumes "unat k < 1024" "in_block (a + 4 * k) 4 x"
  shows "in_block (a :: u32) 4096 x"
proof -
  have "unat (4 * k) = 4 * unat k" using assms(1) by (simp add: unat_word_ariths)
  moreover have "unat (x - a) = unat ((x - (a + 4 * k)) + 4 * k)" by (simp add: algebra_simps)
  ultimately have "unat (x - a) \<le> unat (x - (a + 4 * k)) + 4 * unat k"
    by (metis unat_plus_if' le_refl diff_le_self)
  then show ?thesis using assms unfolding in_block_def by linarith
qed

lemma page_blocks_disjoint:
  assumes "(a :: u32) mod 4096 = 0" "b mod 4096 = 0" "a \<noteq> b" "in_block a 4096 x"
  shows "\<not> in_block b 4096 x"
proof
  assume "in_block b 4096 x"
  have e: "unat c div 4096 = unat x div 4096" if "c mod 4096 = 0" "in_block c 4096 x" for c :: u32
  proof -
    have "unat (c mod 4096) = 0" using that(1) by simp
    then have c: "unat c mod 4096 = 0" by (simp add: unat_mod)
    then obtain q where q: "unat c = 4096 * q" by auto
    have "q < 1048576" using unat_lt_2p32 [of c] unfolding q by linarith
    then have "unat c + 4096 \<le> 4294967296" using q by linarith
    with that(2) q show ?thesis by (subst (asm) in_block_iff) auto
  qed
  have "unat (a mod 4096) = 0" "unat (b mod 4096) = 0" using assms(1,2) by simp_all
  then have "unat a mod 4096 = 0" "unat b mod 4096 = 0" by (simp_all add: unat_mod)
  moreover have "unat a div 4096 = unat b div 4096"
    using e [OF assms(1,4)] e [OF assms(2) \<open>in_block b 4096 x\<close>] by simp
  ultimately have "a = b" by (metis mult_div_mod_eq word_unat_eq_iff)
  with assms(3) show False ..
qed

section \<open>Reading and writing page table entries\<close>

abbreviation pgi :: "u32 \<Rightarrow> u32" where "pgi va \<equiv> va div 4194304"
abbreviation pti :: "u32 \<Rightarrow> u32" where "pti va \<equiv> va mod 4194304 div 4096"

lemma mmu_pte_eq: "mmu_pte m pgd va = load32 m (pt_frame m pgd (unat (pgi va)) + 4 * pti va)"
  by (simp add: mmu_pte_def mmu_pde_def pt_frame_def index_fields)

lemma pt_frame_aligned [simp]: "pt_frame m pgd i mod 4096 = 0"
  unfolding pt_frame_def by (rule frame_mask_mod)

lemma same_page_iff:
  "pgi va' = pgi va \<and> pti va' = pti va \<longleftrightarrow> unat va' div 4096 = unat va div 4096"
proof -
  have p: "unat (pgi v) = unat v div 4096 div 1024" for v by (simp add: unat_div div_mult2_eq [symmetric])
  have t: "unat (pti v) = unat v div 4096 mod 1024" for v
    using mod_mult2_eq [of "unat v" 4096 1024] by (simp add: unat_div unat_mod)
  show ?thesis unfolding word_unat_eq_iff p t by (metis mult_div_mod_eq)
qed

lemma page_tables_okD:
  assumes "page_tables_ok m pgd"
  shows "pgd mod 4096 = 0" "pgd \<noteq> 0" "i < 1024 \<Longrightarrow> pt_frame m pgd i \<noteq> 0" "i < 1024 \<Longrightarrow> pt_frame m pgd i \<noteq> pgd"
    "i < 1024 \<Longrightarrow> j < 1024 \<Longrightarrow> pt_frame m pgd i = pt_frame m pgd j \<Longrightarrow> i = j"
  using assms unfolding page_tables_ok_def by (blast, blast, blast, blast, metis linorder_neqE_nat)

lemma paging_get_pte_eq:
  assumes "page_tables_ok m pgd" "va mod 4096 = 0"
  shows "paging_get_pte m pgd va = Inr (mmu_pte m pgd va)"
  using page_tables_okD(2) [OF assms(1)] page_tables_okD(3) [OF assms(1) index_bounds(1), of va] assms(2)
  by (simp add: paging_get_pte_def paging_get_indexes_def paging_is_aligned_def idx_load_def mmu_pte_eq
    pt_frame_def)

lemma paging_set_eq:
  assumes "page_tables_ok m pgd" "va mod 4096 = 0"
  shows "paging_set m pgd va val = Inr (0, store32 m (pt_frame m pgd (unat (pgi va)) + 4 * pti va) val)"
  using page_tables_okD(2) [OF assms(1)] page_tables_okD(3) [OF assms(1) index_bounds(1), of va] assms(2)
  by (simp add: paging_set_def paging_get_indexes_def paging_is_aligned_def idx_load_def idx_store_def
    pt_frame_def)

lemma unat_of_nat_1024: "i < 1024 \<Longrightarrow> unat (of_nat i :: u32) = i"
  by (simp add: unat_of_nat)

lemma pt_frame_store:
  assumes "page_tables_ok m pgd" "i < 1024"
  shows "pt_frame (store32 m (pt_frame m pgd (unat (pgi va)) + 4 * pti va) val) pgd i = pt_frame m pgd i"
  using page_tables_okD(1) [OF assms(1)] page_tables_okD(4) [OF assms(1) index_bounds(1), of va]
    index_bounds(2) [of va] assms(2)
  by (simp only: pt_frame_def [of _ pgd i]) (subst load_store_entry, simp_all add: unat_of_nat_1024)

lemma page_tables_ok_cong:
  assumes "page_tables_ok m pgd" "\<And>i. i < 1024 \<Longrightarrow> pt_frame m' pgd i = pt_frame m pgd i"
  shows "page_tables_ok m' pgd"
  using assms unfolding page_tables_ok_def by auto

lemma page_tables_ok_store:
  "page_tables_ok m pgd \<Longrightarrow> page_tables_ok (store32 m (pt_frame m pgd (unat (pgi va)) + 4 * pti va) val) pgd"
  using page_tables_ok_cong pt_frame_store by blast

lemma pt_frame_eq_iff:
  assumes "page_tables_ok m pgd"
  shows "pt_frame m pgd (unat (pgi va)) = pt_frame m pgd (unat (pgi va')) \<longleftrightarrow> pgi va = pgi va'"
proof
  assume "pt_frame m pgd (unat (pgi va)) = pt_frame m pgd (unat (pgi va'))"
  then have "unat (pgi va) = unat (pgi va')"
    by (rule page_tables_okD(5) [OF assms index_bounds(1) index_bounds(1)])
  then show "pgi va = pgi va'" by (simp only: word_unat_eq_iff)
qed simp

lemma mmu_pte_store:
  assumes "page_tables_ok m pgd"
  shows "mmu_pte (store32 m (pt_frame m pgd (unat (pgi va)) + 4 * pti va) val) pgd va' =
    (if unat va' div 4096 = unat va div 4096 then val else mmu_pte m pgd va')"
proof -
  have "pt_frame m pgd (unat (pgi va)) = pt_frame m pgd (unat (pgi va')) \<and> pti va = pti va' \<longleftrightarrow>
    unat va' div 4096 = unat va div 4096"
    unfolding pt_frame_eq_iff [OF assms] same_page_iff [symmetric] by (simp only: eq_commute)
  then show ?thesis
    unfolding mmu_pte_eq pt_frame_store [OF assms index_bounds(1)]
      load_store_entry [OF pt_frame_aligned pt_frame_aligned index_bounds(2) index_bounds(2)]
    by (simp only:)
qed

section \<open>Mapping a range of pages\<close>

text \<open>
  A paging descriptor in memory: its page frame holds the directory pointer and is neither the
  directory nor one of the tables.
\<close>

definition paging_desc_ok :: "mem \<Rightarrow> u32 \<Rightarrow> bool" where
  "paging_desc_ok m d \<longleftrightarrow> d mod 4096 = 0 \<and> d \<noteq> 0 \<and> load32 m d \<noteq> d \<and> page_tables_ok m (load32 m d) \<and>
     (\<forall>i < 1024. pt_frame m (load32 m d) i \<noteq> d)"

text \<open>Memory outside the page tables of the directory.\<close>

definition outside_tables :: "mem \<Rightarrow> u32 \<Rightarrow> u32 \<Rightarrow> bool" where
  "outside_tables m pgd x \<longleftrightarrow> (\<forall>i < 1024. \<not> in_block (pt_frame m pgd i) 4096 x)"

lemma desc_store:
  fixes m :: mem and va val d :: u32
  defines "m' \<equiv> store32 m (pt_frame m (load32 m d) (unat (pgi va)) + 4 * pti va) val"
  assumes "paging_desc_ok m d"
  shows "load32 m' d = load32 m d" "paging_desc_ok m' d"
    "outside_tables m (load32 m d) x \<Longrightarrow> m' x = m x"
    "outside_tables m' (load32 m d) x = outside_tables m (load32 m d) x"
proof -
  let ?pgd = "load32 m d"
  have ok: "page_tables_ok m ?pgd" and d: "d mod 4096 = 0" "pt_frame m ?pgd (unat (pgi va)) \<noteq> d"
    using assms(2) index_bounds(1) [of va] by (auto simp: paging_desc_ok_def)
  show l: "load32 m' d = ?pgd"
    using load_store_entry [of "pt_frame m ?pgd (unat (pgi va))" d "pti va" 0 m val] d index_bounds(2) [of va]
    by (simp add: m'_def)
  have f: "pt_frame m' ?pgd i = pt_frame m ?pgd i" if "i < 1024" for i
    unfolding m'_def by (rule pt_frame_store [OF ok that])
  show "paging_desc_ok m' d"
    using assms(2) page_tables_ok_cong [OF ok f] f unfolding paging_desc_ok_def l by auto
  show "outside_tables m' ?pgd x = outside_tables m ?pgd x" using f by (auto simp: outside_tables_def)
  assume "outside_tables m ?pgd x"
  then have "\<not> in_block (pt_frame m ?pgd (unat (pgi va))) 4096 x"
    using index_bounds(1) [of va] by (simp add: outside_tables_def)
  then have "\<not> in_block (pt_frame m ?pgd (unat (pgi va)) + 4 * pti va) 4 x"
    using page_entry_in_block [OF index_bounds(2)] by blast
  then show "m' x = m x" unfolding m'_def by (rule store32_frame)
qed

lemma aligned_unat: "(a :: u32) mod 4096 = 0 \<longleftrightarrow> unat a mod 4096 = 0"
  by (simp add: word_unat_eq_iff unat_mod)

lemma aligned_add_page: "(a :: u32) mod 4096 = 0 \<Longrightarrow> (a + 4096) mod 4096 = 0"
proof -
  assume h: "a mod 4096 = 0"
  have "4096 dvd (unat a + 4096) mod 4294967296"
    using h unfolding aligned_unat by (intro dvd_mod) auto
  then have "unat (a + 4096) mod 4096 = 0" by (simp add: unat_word_ariths)
  then show ?thesis unfolding aligned_unat .
qed

lemma page_step:
  fixes va va' pa :: u32
  assumes "va mod 4096 = 0" "unat va + 4096 * Suc k \<le> 4294967296"
  shows "(if unat (va + 4096) \<le> unat va' \<and> unat va' < unat (va + 4096) + 4096 * k
       then (pa + 4096 + of_nat (4096 * ((unat va' - unat (va + 4096)) div 4096))) OR c
       else if unat va' div 4096 = unat va div 4096 then pa OR c else y) =
    (if unat va \<le> unat va' \<and> unat va' < unat va + 4096 * Suc k
       then (pa + of_nat (4096 * ((unat va' - unat va) div 4096))) OR c else y)"
proof -
  define q u where "q = unat va div 4096" and "u = unat va'"
  have "unat va mod 4096 = 0" using assms(1) by (simp add: aligned_unat)
  then have va: "unat va = 4096 * q" unfolding q_def by (metis add_0_right mult_div_mod_eq)
  have w: "unat (va + 4096) = 4096 * q + 4096" if "0 < k"
    using assms(2) that va by (simp add: unat_word_ariths)
  have dq: "u div 4096 = q \<longleftrightarrow> 4096 * q \<le> u \<and> u < 4096 * q + 4096" by linarith
  consider "u div 4096 = q" | "u div 4096 \<noteq> q" "0 < k" "4096 * q + 4096 \<le> u" "u < 4096 * q + 4096 + 4096 * k"
    | "u div 4096 \<noteq> q" "\<not> (4096 * q \<le> u \<and> u < 4096 * q + 4096 * Suc k)"
    unfolding dq by (cases "k = 0"; fastforce)
  then show ?thesis
  proof cases
    case 1
    then have r: "4096 * q \<le> u" "u < 4096 * q + 4096" by (simp_all add: dq)
    then have "(u - 4096 * q) div 4096 = 0" by simp
    moreover have c: "(unat (va + 4096) \<le> u \<and> u < unat (va + 4096) + 4096 * k) = False"
      using w r by (cases "k = 0") auto
    ultimately show ?thesis using r 1 unfolding u_def [symmetric] c q_def [symmetric] va by simp
  next
    case 2
    then obtain t where t: "u = 4096 * q + 4096 + t" using le_Suc_ex by blast
    have "(u - 4096 * q) div 4096 = Suc (t div 4096)" unfolding t by simp
    moreover have "(u - (4096 * q + 4096)) div 4096 = t div 4096" unfolding t by simp
    ultimately show ?thesis using 2 unfolding u_def [symmetric] q_def [symmetric] va w [OF 2(2)]
      by (simp add: algebra_simps)
  next
    case 3
    then have c: "(unat (va + 4096) \<le> u \<and> u < unat (va + 4096) + 4096 * k) = False"
      using w by (cases "k = 0") auto
    show ?thesis using 3 unfolding u_def [symmetric] c q_def [symmetric] va
      by (simp only: if_False if_not_P)
  qed
qed

lemma map_range_loop_result:
  assumes "paging_desc_ok m d" "va mod 4096 = 0" "i \<le> n" "unat va + 4096 * nat (n - i) \<le> 4294967296" "0 \<le> rc"
    "i = n \<longrightarrow> rc = 0"
  shows "\<exists>m'. map_range_loop m d va pa n prot i rc = Inr (0, m') \<and> paging_desc_ok m' d \<and>
    load32 m' d = load32 m d \<and>
    (\<forall>va'. mmu_pte m' (load32 m d) va' =
      (if unat va \<le> unat va' \<and> unat va' < unat va + 4096 * nat (n - i)
       then (pa + of_nat (4096 * ((unat va' - unat va) div 4096))) OR of_int prot
       else mmu_pte m (load32 m d) va')) \<and>
    (\<forall>x. outside_tables m (load32 m d) x \<longrightarrow> m' x = m x)"
  using assms
proof (induction "nat (n - i)" arbitrary: m va pa i rc)
  case 0
  then show ?case by (subst map_range_loop.simps) auto
next
  case (Suc k)
  let ?pgd = "load32 m d"
  let ?m = "store32 m (pt_frame m ?pgd (unat (pgi va)) + 4 * pti va) (pa OR of_int prot)"
  have lt: "i < n" and ok: "page_tables_ok m ?pgd" "d \<noteq> 0"
    using Suc by (auto simp: paging_desc_ok_def)
  note ds = desc_store [OF Suc.prems(1), where va = va and val = "pa OR of_int prot"]
  have ni: "nat (n - i) = Suc (nat (n - (i + 1)))" using lt by linarith
  have k: "k = nat (n - (i + 1))" using Suc.hyps(2) ni by simp
  have al: "(va + 4096) mod 4096 = 0" by (rule aligned_add_page [OF Suc.prems(2)])
  have step: "map_range_loop m d va pa n prot i rc = map_range_loop ?m d (va + 4096) (pa + 4096) n prot (i + 1) 0"
    using lt ok(2) paging_set_eq [OF ok(1) Suc.prems(2), of "pa OR of_int prot"]
    by (subst map_range_loop.simps) (simp add: idx_load_def)
  have w: "unat (va + 4096) + 4096 * nat (n - (i + 1)) \<le> 4294967296"
    using Suc.prems(4) unfolding ni by (cases "nat (n - (i + 1)) = 0") (simp_all add: unat_word_ariths)
  have "\<exists>m'. map_range_loop ?m d (va + 4096) (pa + 4096) n prot (i + 1) 0 = Inr (0, m') \<and> paging_desc_ok m' d \<and>
    load32 m' d = load32 ?m d \<and>
    (\<forall>va'. mmu_pte m' (load32 ?m d) va' =
      (if unat (va + 4096) \<le> unat va' \<and> unat va' < unat (va + 4096) + 4096 * nat (n - (i + 1))
       then (pa + 4096 + of_nat (4096 * ((unat va' - unat (va + 4096)) div 4096))) OR of_int prot
       else mmu_pte ?m (load32 ?m d) va')) \<and>
    (\<forall>x. outside_tables ?m (load32 ?m d) x \<longrightarrow> ?m x = ?m x \<and> m' x = ?m x)"
    using Suc.hyps(1) [OF k ds(2) al _ w] lt by simp
  then obtain m' where m': "map_range_loop ?m d (va + 4096) (pa + 4096) n prot (i + 1) 0 = Inr (0, m')"
    "paging_desc_ok m' d" "load32 m' d = ?pgd"
    "\<And>va'. mmu_pte m' ?pgd va' =
      (if unat (va + 4096) \<le> unat va' \<and> unat va' < unat (va + 4096) + 4096 * nat (n - (i + 1))
       then (pa + 4096 + of_nat (4096 * ((unat va' - unat (va + 4096)) div 4096))) OR of_int prot
       else mmu_pte ?m ?pgd va')" "\<And>x. outside_tables m ?pgd x \<Longrightarrow> m' x = ?m x"
    unfolding ds(1) ds(4) by blast
  have "mmu_pte m' ?pgd va' =
      (if unat va \<le> unat va' \<and> unat va' < unat va + 4096 * nat (n - i)
       then (pa + of_nat (4096 * ((unat va' - unat va) div 4096))) OR of_int prot
       else mmu_pte m ?pgd va')" for va'
    unfolding m'(4) mmu_pte_store [OF ok(1)] ni
    by (rule page_step) (use Suc.prems(2,4) ni in simp_all)
  moreover have "\<forall>x. outside_tables m ?pgd x \<longrightarrow> m' x = m x" using m'(5) ds(3) by simp
  ultimately show ?case using m'(1-3) step by (intro exI [of _ m']) simp
qed

section \<open>Building the identity mapping\<close>

lemma load_page_cong:
  assumes "\<forall>x. \<not> in_block p 4096 x \<longrightarrow> m' x = m x" "(p :: u32) mod 4096 = 0" "q mod 4096 = 0" "q \<noteq> p" "unat k < 1024"
  shows "load32 m' (q + 4 * k) = load32 m (q + 4 * k)"
proof (rule load32_cong)
  fix x assume "in_block (q + 4 * k) 4 x"
  then have "in_block q 4096 x" by (rule page_entry_in_block [OF assms(5)])
  then have "\<not> in_block p 4096 x" by (rule page_blocks_disjoint [OF assms(3,2,4)])
  with assms(1) show "m' x = m x" by blast
qed

lemma pt_frame_cong:
  assumes "\<forall>x. \<not> in_block p 4096 x \<longrightarrow> m' x = m x" "(p :: u32) mod 4096 = 0" "pgd mod 4096 = 0" "pgd \<noteq> p" "i < 1024"
  shows "pt_frame m' pgd i = pt_frame m pgd i"
  using load_page_cong [OF assms(1-4), of "of_nat i"] assms(5) by (simp add: pt_frame_def unat_of_nat_1024)

lemma of_nat_1024_inj: "i < 1024 \<Longrightarrow> j < 1024 \<Longrightarrow> (of_nat i :: u32) = of_nat j \<longleftrightarrow> i = j"
  by (metis unat_of_nat_1024)

lemma init_pte_loop_result:
  assumes "pte mod 4096 = 0" "pte \<noteq> 0" "b \<le> 1024"
  shows "\<exists>m'. init_pte_loop m pte off fl b = Inr m' \<and> (\<forall>x. \<not> in_block pte 4096 x \<longrightarrow> m' x = m x) \<and>
    (\<forall>k < 1024. load32 m' (pte + 4 * of_nat k) =
       (if b \<le> k then (off + of_nat k * 4096) OR ucast fl else load32 m (pte + 4 * of_nat k)))"
  using assms(3)
proof (induction "1024 - b" arbitrary: b m)
  case 0
  then show ?case by (subst init_pte_loop.simps) auto
next
  case (Suc n)
  let ?m = "store32 m (pte + 4 * of_nat b) ((off + of_nat b * 4096) OR ucast fl)"
  have b: "b < 1024" "n = 1024 - Suc b" using Suc.hyps(2) by auto
  have step: "init_pte_loop m pte off fl b = init_pte_loop ?m pte off fl (Suc b)"
    using b(1) assms(2) by (subst init_pte_loop.simps) (simp add: idx_store_def)
  from Suc.hyps(1) [OF b(2), of ?m] b(1) obtain m' where m': "init_pte_loop ?m pte off fl (Suc b) = Inr m'"
    "\<forall>x. \<not> in_block pte 4096 x \<longrightarrow> m' x = ?m x"
    "\<forall>k < 1024. load32 m' (pte + 4 * of_nat k) =
       (if Suc b \<le> k then (off + of_nat k * 4096) OR ucast fl else load32 ?m (pte + 4 * of_nat k))"
    by auto
  have "?m x = m x" if "\<not> in_block pte 4096 x" for x
    using that page_entry_in_block [of "of_nat b" pte x] b(1) by (intro store32_frame) (auto simp: unat_of_nat_1024)
  moreover have "load32 m' (pte + 4 * of_nat k) =
       (if b \<le> k then (off + of_nat k * 4096) OR ucast fl else load32 m (pte + 4 * of_nat k))" if k: "k < 1024" for k
  proof -
    have "load32 ?m (pte + 4 * of_nat k) =
      (if b = k then (off + of_nat b * 4096) OR ucast fl else load32 m (pte + 4 * of_nat k))"
      using load_store_entry [OF assms(1) assms(1), of "of_nat b" "of_nat k" m] b(1) k
      by (simp only: unat_of_nat_1024 of_nat_1024_inj) simp
    then show ?thesis using m'(3) k by (cases "k = b") auto
  qed
  ultimately show ?case using m'(1,2) step by (intro exI [of _ m']) simp
qed

text \<open>The first \<open>n\<close> directory entries and their tables map linear addresses to themselves.\<close>

definition ident_upto :: "mem \<Rightarrow> u32 \<Rightarrow> u8 \<Rightarrow> nat \<Rightarrow> bool" where
  "ident_upto m pgd fl n \<longleftrightarrow> (\<forall>i < n. load32 m (pgd + 4 * of_nat i) = pt_frame m pgd i OR (ucast fl OR 2) \<and>
     (\<forall>k < 1024. load32 m (pt_frame m pgd i + 4 * of_nat k) = (of_nat i * 4194304 + of_nat k * 4096) OR ucast fl))"

definition init_inv :: "'a kstate_scheme \<Rightarrow> u32 \<Rightarrow> u8 \<Rightarrow> nat \<Rightarrow> bool" where
  "init_inv s pgd fl n \<longleftrightarrow> heap_ok (kernel_heap s) \<and> pgd mod 4096 = 0 \<and> pgd \<noteq> 0 \<and> live (kernel_heap s) pgd \<noteq> None \<and>
     ident_upto (kmem s) pgd fl n \<and>
     (\<forall>i < n. pt_frame (kmem s) pgd i \<noteq> 0 \<and> pt_frame (kmem s) pgd i \<noteq> pgd \<and>
        live (kernel_heap s) (pt_frame (kmem s) pgd i) \<noteq> None \<and>
        (\<forall>j < i. pt_frame (kmem s) pgd j \<noteq> pt_frame (kmem s) pgd i))"

lemma flags_bound: "unat (ucast (fl :: u8) OR 2 :: u32) < 4096"
proof -
  have "take_bit 12 (ucast fl OR 2 :: u32) = ucast fl OR 2"
    by (rule bit_word_eqI) (auto simp: bit_simps dest: bit_imp_le_length)
  then have "(ucast fl OR 2 :: u32) mod 4096 = ucast fl OR 2" by (simp add: take_bit_eq_mod)
  moreover have "unat ((ucast fl OR 2 :: u32) mod 4096) < 4096" by (simp add: unat_mod)
  ultimately show ?thesis by (simp only:)
qed

lemma ident_upto_frame:
  assumes "ident_upto m pgd fl n" "n \<le> 1024" "\<forall>x. \<not> in_block p 4096 x \<longrightarrow> m' x = m x" "p mod 4096 = 0"
    "pgd mod 4096 = 0" "pgd \<noteq> p" "\<forall>i < n. pt_frame m pgd i \<noteq> p"
  shows "ident_upto m' pgd fl n"
  unfolding ident_upto_def
proof (intro allI impI conjI)
  fix i k assume i: "i < n"
  have f: "pt_frame m' pgd i = pt_frame m pgd i"
    using i assms(2) by (intro pt_frame_cong [OF assms(3-6)]) simp
  show "load32 m' (pgd + 4 * of_nat i) = pt_frame m' pgd i OR (ucast fl OR 2)"
    using load_page_cong [OF assms(3-6), of "of_nat i"] i assms(1,2)
    by (simp add: f ident_upto_def unat_of_nat_1024)
  assume k: "k < (1024 :: nat)"
  show "load32 m' (pt_frame m' pgd i + 4 * of_nat k) = (of_nat i * 4194304 + of_nat k * 4096) OR ucast fl"
    using load_page_cong [OF assms(3,4) pt_frame_aligned, of m pgd i "of_nat k"] i k assms(1,7)
    by (simp add: f ident_upto_def unat_of_nat_1024)
qed

lemma init_inv_step:
  assumes inv: "init_inv s pgd fl i" "i < 1024" and pte: "pte \<noteq> 0" "pte mod 4096 = 0" "live (kernel_heap s) pte = None"
    and s1: "heap_ok (kernel_heap s1)" "live (kernel_heap s1) = (live (kernel_heap s))(pte \<mapsto> k)"
    and m2: "\<forall>x. \<not> in_block pte 4096 x \<longrightarrow> m2 x = kmem s x"
      "\<forall>k < 1024. load32 m2 (pte + 4 * of_nat k) = (of_nat i * 4194304 + of_nat k * 4096) OR ucast fl"
  shows "init_inv (s1\<lparr>kmem := store32 m2 (pgd + 4 * of_nat i) (pte OR (ucast fl OR 2))\<rparr>) pgd fl (Suc i)"
proof -
  define v where "v = pte OR (ucast fl OR 2)"
  define m3 where "m3 = store32 m2 (pgd + 4 * of_nat i) v"
  have al: "pgd mod 4096 = 0" "pgd \<noteq> 0" and ne: "pgd \<noteq> pte" and id: "ident_upto (kmem s) pgd fl i"
    using inv(1) pte(3) by (auto simp: init_inv_def)
  have fr: "pt_frame (kmem s) pgd j \<noteq> 0" "pt_frame (kmem s) pgd j \<noteq> pgd" "pt_frame (kmem s) pgd j \<noteq> pte"
    "live (kernel_heap s) (pt_frame (kmem s) pgd j) \<noteq> None"
    "j' < j \<Longrightarrow> pt_frame (kmem s) pgd j' \<noteq> pt_frame (kmem s) pgd j" if "j < i" for j j'
    using inv(1) pte(3) that by (auto simp: init_inv_def)
  have ld: "load32 m3 (q + 4 * of_nat j) = (if pgd = q \<and> i = j then v else load32 m2 (q + 4 * of_nat j))"
    if "q mod 4096 = 0" "j < 1024" for q j
    using load_store_entry [OF al(1) that(1), of "of_nat i" "of_nat j" m2 v] that(2) inv(2)
    unfolding m3_def by (simp only: unat_of_nat_1024 of_nat_1024_inj)
  have id2: "ident_upto m2 pgd fl i"
    using inv(2) fr(3) by (intro ident_upto_frame [OF id _ m2(1) pte(2) al(1) ne]) auto
  have f2: "pt_frame m2 pgd j = pt_frame (kmem s) pgd j" if "j < i" for j
    using that inv(2) by (intro pt_frame_cong [OF m2(1) pte(2) al(1) ne]) simp
  have f3: "pt_frame m3 pgd j = (if j = i then pte else pt_frame (kmem s) pgd j)" if "j < Suc i" for j
    using that inv(2) ld [OF al(1), of j] f2 [of j] frame_mask_or [OF pte(2) flags_bound, of fl]
    by (auto simp: pt_frame_def v_def)
  have "ident_upto m3 pgd fl (Suc i)"
    unfolding ident_upto_def
  proof (intro allI impI conjI)
    fix j l assume j: "j < Suc i"
    show "load32 m3 (pgd + 4 * of_nat j) = pt_frame m3 pgd j OR (ucast fl OR 2)"
      using j inv(2) ld [OF al(1), of j] f3 [OF j] id2 f2 [of j] by (auto simp: ident_upto_def v_def)
    assume l: "l < (1024 :: nat)"
    have "load32 m3 (pt_frame m3 pgd j + 4 * of_nat l) = load32 m2 (pt_frame m3 pgd j + 4 * of_nat l)"
      using ld [OF pt_frame_aligned l, of m3 pgd j] f3 [OF j] ne fr(2) [of j] j by (auto split: if_splits)
    also have "\<dots> = (of_nat j * 4194304 + of_nat l * 4096) OR ucast fl"
      using f3 [OF j] m2(2) id2 f2 [of j] j l by (cases "j = i") (auto simp: ident_upto_def less_Suc_eq)
    finally show "load32 m3 (pt_frame m3 pgd j + 4 * of_nat l) = (of_nat j * 4194304 + of_nat l * 4096) OR ucast fl" .
  qed
  moreover have "pt_frame m3 pgd j \<noteq> 0 \<and> pt_frame m3 pgd j \<noteq> pgd \<and> live (kernel_heap s1) (pt_frame m3 pgd j) \<noteq> None \<and>
      (\<forall>j' < j. pt_frame m3 pgd j' \<noteq> pt_frame m3 pgd j)" if j: "j < Suc i" for j
    using f3 fr(1-4) [of j] fr(3) fr(5) [of j] j pte(1) ne s1(2) by (cases "j = i") auto
  moreover have "live (kernel_heap s1) pgd \<noteq> None" using inv(1) s1(2) by (auto simp: init_inv_def)
  ultimately show ?thesis
    using al s1(1) unfolding init_inv_def m3_def [symmetric] v_def [symmetric] by simp
qed

lemma unat_numeral_4096: "unat (4096 :: u32) = 4096"
  by simp

lemma init_step:
  assumes "init_inv s pgd fl i" "i < 1024" "0 < free_blocks (kernel_heap s)"
  shows "\<exists>s'. (\<forall>off. off = of_nat i * 4194304 \<longrightarrow>
      init_pgd_loop s pgd fl i off = init_pgd_loop s' pgd fl (Suc i) (off + 4194304)) \<and>
    init_inv s' pgd fl (Suc i) \<and> free_blocks (kernel_heap s') = free_blocks (kernel_heap s) - 1"
proof -
  have inv: "heap_ok (kernel_heap s)" "pgd mod 4096 = 0" "pgd \<noteq> 0" "live (kernel_heap s) pgd \<noteq> None"
    "ident_upto (kmem s) pgd fl i"
    using assms(1) by (auto simp: init_inv_def)
  obtain pte s1 k where a: "kzalloc s 4096 = Inr (pte, s1)" "pte \<noteq> 0" "pte mod 4096 = 0" "heap_ok (kernel_heap s1)"
    "free_blocks (kernel_heap s1) = free_blocks (kernel_heap s) - 1" "live (kernel_heap s) pte = None"
    "live (kernel_heap s1) = (live (kernel_heap s))(pte \<mapsto> k)"
    "\<forall>x. kmem s1 x = (if in_block pte 4096 x then 0 else kmem s x)"
    using kz.alloc_page_fresh [OF inv(1) _ _ assms(3), of 4096]
    by (simp only: unat_numeral_4096 order_refl zero_less_numeral simp_thms) metis
  define off where "off = (of_nat i * 4194304 :: u32)"
  obtain m2 where m2: "init_pte_loop (kmem s1) pte off fl 0 = Inr m2"
    "\<forall>x. \<not> in_block pte 4096 x \<longrightarrow> m2 x = kmem s1 x"
    "\<forall>k < 1024. load32 m2 (pte + 4 * of_nat k) = (off + of_nat k * 4096) OR ucast fl"
    using init_pte_loop_result [OF a(3,2), of 0 "kmem s1" off fl] by auto
  have m2s: "\<forall>x. \<not> in_block pte 4096 x \<longrightarrow> m2 x = kmem s x" using m2(2) a(8) by simp
  define v where "v = pte OR (ucast fl OR 2)"
  define m3 where "m3 = store32 m2 (pgd + 4 * of_nat i) v"
  let ?s = "s1\<lparr>kmem := m3\<rparr>"
  have "init_pgd_loop s pgd fl i off = init_pgd_loop ?s pgd fl (Suc i) (off + 4194304)"
    using assms(2) a(1) m2(1) inv(3)
    by (subst init_pgd_loop.simps) (simp add: idx_store_def m3_def v_def or.assoc)
  moreover have "init_inv ?s pgd fl (Suc i)"
    unfolding m3_def v_def
    by (rule init_inv_step [OF assms(1,2) a(2,3,6,4,7) m2s]) (use m2(3) in \<open>simp add: off_def\<close>)
  ultimately show ?thesis using a(5) by (intro exI [of _ ?s]) (simp add: off_def)
qed

lemma init_pgd_loop_result:
  assumes "init_inv s pgd fl i" "i \<le> 1024" "1024 - i \<le> free_blocks (kernel_heap s)"
  shows "\<exists>s'. init_pgd_loop s pgd fl i (of_nat i * 4194304) = Inr s' \<and> init_inv s' pgd fl 1024 \<and>
    free_blocks (kernel_heap s') = free_blocks (kernel_heap s) - (1024 - i)"
  using assms
proof (induction "1024 - i" arbitrary: i s)
  case 0
  then show ?case by (subst init_pgd_loop.simps) auto
next
  case (Suc n)
  then have i: "i < 1024" "n = 1024 - Suc i" by auto
  have "0 < free_blocks (kernel_heap s)" using Suc.prems(3) i(1) by linarith
  from init_step [OF Suc.prems(1) i(1) this] obtain s' where
    s': "init_pgd_loop s pgd fl i (of_nat i * 4194304) = init_pgd_loop s' pgd fl (Suc i) (of_nat i * 4194304 + 4194304)"
    "init_inv s' pgd fl (Suc i)" "free_blocks (kernel_heap s') = free_blocks (kernel_heap s) - 1" by auto
  have "(of_nat (Suc i) * 4194304 :: u32) = of_nat i * 4194304 + 4194304" by (simp add: algebra_simps)
  moreover have "1024 - Suc i \<le> free_blocks (kernel_heap s')" using s'(3) Suc.prems(3) by linarith
  moreover have "free_blocks (kernel_heap s') - (1024 - Suc i) = free_blocks (kernel_heap s) - (1024 - i)"
    using s'(3) i(1) by linarith
  ultimately show ?case using Suc.hyps(1) [OF i(2) s'(2)] i(1) s'(1) by (simp add: add.commute)
qed

lemma init_page_tables_result:
  assumes "heap_ok (kernel_heap s)" "1026 \<le> free_blocks (kernel_heap s)"
  shows "\<exists>d s'. init_page_tables s fl = Inr (d, s') \<and> paging_desc_ok (kmem s') d \<and>
    ident_upto (kmem s') (load32 (kmem s') d) fl 1024 \<and> heap_ok (kernel_heap s') \<and>
    free_blocks (kernel_heap s') = free_blocks (kernel_heap s) - 1026"
proof -
  have f0: "0 < free_blocks (kernel_heap s)" using assms(2) by linarith
  obtain pgd s1 k where a: "kzalloc s 4096 = Inr (pgd, s1)" "pgd \<noteq> 0" "pgd mod 4096 = 0" "heap_ok (kernel_heap s1)"
    "free_blocks (kernel_heap s1) = free_blocks (kernel_heap s) - 1"
    "live (kernel_heap s1) = (live (kernel_heap s))(pgd \<mapsto> k)"
    using kz.alloc_page_fresh [OF assms(1) _ _ f0, of 4096]
    by (simp only: unat_numeral_4096 order_refl zero_less_numeral simp_thms) metis
  have "init_inv s1 pgd fl 0" using a by (simp add: init_inv_def ident_upto_def)
  moreover have "1024 - 0 \<le> free_blocks (kernel_heap s1)" using a(5) assms(2) by linarith
  ultimately obtain s2 where s2: "init_pgd_loop s1 pgd fl 0 0 = Inr s2"
    "init_inv s2 pgd fl 1024" "free_blocks (kernel_heap s2) = free_blocks (kernel_heap s) - 1025"
    using init_pgd_loop_result [of s1 pgd fl 0] a(5) by auto
  have inv2: "heap_ok (kernel_heap s2)" "live (kernel_heap s2) pgd \<noteq> None" "ident_upto (kmem s2) pgd fl 1024"
    using s2(2) by (auto simp: init_inv_def)
  have f2: "0 < free_blocks (kernel_heap s2)" using s2(3) assms(2) by linarith
  obtain d s3 where d: "kzalloc s2 4 = Inr (d, s3)" "d \<noteq> 0" "d mod 4096 = 0" "heap_ok (kernel_heap s3)"
    "free_blocks (kernel_heap s3) = free_blocks (kernel_heap s2) - 1" "live (kernel_heap s2) d = None"
    "\<forall>x. kmem s3 x = (if in_block d (unat (4 :: u32)) x then 0 else kmem s2 x)"
  proof -
    have "0 < unat (4 :: u32)" "unat (4 :: u32) \<le> 4096" by simp_all
    from kz.alloc_page_fresh [OF inv2(1) this f2] show thesis using that by metis
  qed
  define m where "m = store32 (kmem s3) d pgd"
  have "init_page_tables s fl = Inr (d, s3\<lparr>kmem := m\<rparr>)"
    using a(1) s2(1) d(1,2) by (simp add: init_page_tables_def idx_store_def m_def)
  moreover have mf: "\<forall>x. \<not> in_block d 4096 x \<longrightarrow> m x = kmem s2 x"
  proof (intro allI impI)
    fix x assume x: "\<not> in_block d 4096 x"
    then have "\<not> in_block d 4 x" by (simp add: in_block_def)
    with d(7) show "m x = kmem s2 x" by (simp add: m_def store32_frame)
  qed
  have l: "load32 m d = pgd" by (simp add: m_def)
  have ne: "pgd \<noteq> d" "\<forall>i < 1024. pt_frame (kmem s2) pgd i \<noteq> d"
    using inv2(2) s2(2) d(6) by (auto simp: init_inv_def)
  have fr: "pt_frame m pgd i = pt_frame (kmem s2) pgd i" if "i < 1024" for i
    by (rule pt_frame_cong [OF mf d(3) a(3) ne(1) that])
  have "page_tables_ok (kmem s2) pgd" using s2(2) by (auto simp: init_inv_def page_tables_ok_def)
  then have "page_tables_ok m pgd" by (rule page_tables_ok_cong) (rule fr)
  then have "paging_desc_ok m d" using d(2,3) ne fr by (simp add: paging_desc_ok_def l)
  moreover have "ident_upto m pgd fl 1024"
    by (rule ident_upto_frame [OF inv2(3) _ mf d(3) a(3) ne]) simp
  ultimately show ?thesis using d(4,5) s2(3) l by (intro exI [of _ d] exI [of _ "s3\<lparr>kmem := m\<rparr>"]) simp
qed

lemma page_base: "pgi va * 4194304 + pti va * 4096 = va AND 0xfffff000"
proof -
  define x where "x = unat va"
  have e: "x div 4194304 * 4194304 + x mod 4194304 div 4096 * 4096 = x - x mod 4096"
  proof -
    define q where "q = x div 4096"
    have "x div 4194304 = q div 1024" "x mod 4194304 div 4096 = q mod 1024"
      using mod_mult2_eq [of x 4096 1024] by (simp_all add: q_def div_mult2_eq [symmetric])
    moreover have "q div 1024 * 1024 + q mod 1024 = q" by (rule div_mult_mod_eq)
    then have "q div 1024 * 4194304 + q mod 1024 * 4096 = q * 4096" by linarith
    moreover have "q * 4096 = x - x mod 4096" by (simp add: q_def minus_mod_eq_div_mult)
    ultimately show ?thesis by (simp only:)
  qed
  have "unat (pgi va * 4194304 + pti va * 4096) =
    (x div 4194304 * 4194304 + x mod 4194304 div 4096 * 4096) mod 4294967296"
    by (simp add: unat_word_ariths unat_div unat_mod x_def mod_simps)
  also have "\<dots> = x - x mod 4096"
    unfolding e using unat_lt_2p32 [of va] by (simp add: x_def del: unat_lt_2p32)
  also have "\<dots> = unat (va - va mod 4096)"
    by (simp add: x_def unat_sub_if_size unat_mod)
  finally have "pgi va * 4194304 + pti va * 4096 = va - va mod 4096" by (simp only: word_unat_eq_iff)
  then show ?thesis by (simp only: frame_mask)
qed

lemma of_nat_unat_u32: "of_nat (unat (w :: u32)) = w"
  by simp

lemma ident_upto_pte:
  assumes "ident_upto m pgd fl 1024"
  shows "mmu_pte m pgd va = (va AND 0xfffff000) OR ucast fl"
    "mmu_pde m pgd va = pt_frame m pgd (unat (pgi va)) OR (ucast fl OR 2)"
proof -
  have "load32 m (pgd + 4 * of_nat (unat (pgi va))) = pt_frame m pgd (unat (pgi va)) OR (ucast fl OR 2)"
    "load32 m (pt_frame m pgd (unat (pgi va)) + 4 * of_nat (unat (pti va))) =
      (of_nat (unat (pgi va)) * 4194304 + of_nat (unat (pti va)) * 4096) OR ucast fl"
    using assms index_bounds [of va] unfolding ident_upto_def by blast+
  then show "mmu_pte m pgd va = (va AND 0xfffff000) OR ucast fl"
    "mmu_pde m pgd va = pt_frame m pgd (unat (pgi va)) OR (ucast fl OR 2)"
    by (simp_all only: of_nat_unat_u32 mmu_pte_eq mmu_pde_def index_fields(1) [symmetric] page_base)
qed

lemma unat_ucast_small: "unat (ucast (b :: u8) :: u32) = unat b"
  using unsigned_less [of b, where ?'a = nat] by (simp add: unsigned_ucast_eq take_bit_nat_eq_self)

lemma ident_upto_translate:
  assumes "ident_upto m pgd fl 1024" "bit fl 0"
  shows "mmu_translate m pgd va = Some va"
proof -
  have "bit (mmu_pte m pgd va) 0" "bit (mmu_pde m pgd va) 0"
    using assms(2) by (auto simp: ident_upto_pte [OF assms(1)] bit_simps)
  moreover have "unat (ucast fl :: u32) < 4096"
    using unsigned_less [of fl, where ?'a = nat] by (simp add: unat_ucast_small)
  then have "mmu_pte m pgd va AND 0xfffff000 = va AND 0xfffff000"
    unfolding ident_upto_pte [OF assms(1)] by (rule frame_mask_or [OF frame_mask_mod])
  moreover have "(va AND NOT (mask 12)) OR (va AND mask 12) = va"
    by (rule bit_word_eqI) (auto simp: bit_simps)
  then have "(va AND 0xfffff000) OR (va AND 0xfff) = va"
    by (simp only: frame_mask_eq) (simp add: mask_eq_exp_minus_1)
  ultimately show ?thesis by (simp add: mmu_translate_def)
qed

section \<open>Properties\<close>

definition boot_state :: kstate where
  "boot_state = \<lparr>kernel_heap = \<lparr>table = \<lparr>entries = replicate 2048 0, total_entries = 2048\<rparr>,
     start_addr = 0x01000000\<rparr>, kmem = (\<lambda>_. 0)\<rparr>"

lemma boot_state_ok: "heap_ok (kernel_heap boot_state)" "free_blocks (kernel_heap boot_state) = 2048"
proof -
  have "tab_run False (replicate n 0) = Some False" for n by (induction n) auto
  then show "heap_ok (kernel_heap boot_state)" by (simp add: boot_state_def heap_ok_def table_ok_def)
  show "free_blocks (kernel_heap boot_state) = 2048" by (simp add: boot_state_def free_blocks_def)
qed

lemma boot_tables: "\<exists>d s. init_page_tables boot_state 7 = Inr (d, s) \<and> paging_desc_ok (kmem s) d \<and>
  ident_upto (kmem s) (load32 (kmem s) d) 7 1024"
  using init_page_tables_result [of boot_state 7] boot_state_ok by auto

text \<open>
  C8. \<open>init_page_tables\<close> with the present flag, on a heap with at least 1026 free blocks, succeeds and
  builds the identity mapping of the whole 4 GiB address space: the processor's page walk
  through the new directory takes every linear address to itself. It uses exactly 1026 blocks.
\<close>

theorem init_page_tables_identity:
  assumes "heap_ok (kernel_heap s)" "1026 \<le> free_blocks (kernel_heap s)" "bit flags 0"
  shows "\<exists>paging s'. init_page_tables s flags = Inr (paging, s') \<and> paging_desc_ok (kmem s') paging \<and>
    (\<forall>va. mmu_translate (kmem s') (load32 (kmem s') paging) va = Some va) \<and> heap_ok (kernel_heap s') \<and>
    free_blocks (kernel_heap s') = free_blocks (kernel_heap s) - 1026"
  using init_page_tables_result [OF assms(1,2), of flags] ident_upto_translate [OF _ assms(3)] by blast

theorem init_page_tables_identity_witness:
  "\<exists>paging s'. init_page_tables boot_state 7 = Inr (paging, s') \<and>
     mmu_translate (kmem s') (load32 (kmem s') paging) 0xB8123 = Some 0xB8123"
  using init_page_tables_identity [of boot_state 7] boot_state_ok by (auto simp: bit_simps)

text \<open>
  C9. \<open>paging_get_physical_address\<close> computes what the processor's page walk computes, for every
  linear address whose directory entry and table entry are present.
\<close>

theorem physical_address_is_page_walk:
  assumes "page_tables_ok m pgd" "mmu_translate m pgd va = Some pa"
  shows "paging_get_physical_address m pgd va = Inr pa"
proof -
  have lower: "paging_align_to_lower_page va = va AND 0xfffff000"
    by (auto simp: paging_align_to_lower_page_def paging_is_aligned_def frame_mask)
  have off: "va - (va AND 0xfffff000) = va AND 0xfff"
    by (simp only: frame_mask index_fields(3) [symmetric]) simp
  have same: "mmu_pte m pgd (va AND 0xfffff000) = mmu_pte m pgd va"
  proof -
    have "unat (va AND 0xfffff000) div 4096 = unat va div 4096"
    proof -
      have "unat (va - va mod 4096) = unat va - unat va mod 4096"
        by (subst unat_sub) (simp_all add: word_le_nat_alt unat_mod)
      then show ?thesis unfolding frame_mask by (simp add: minus_mod_eq_div_mult)
    qed
    then have e: "pgi (va AND 0xfffff000) = pgi va" "pti (va AND 0xfffff000) = pti va"
      unfolding same_page_iff [symmetric] by blast+
    show ?thesis unfolding mmu_pte_eq e ..
  qed
  have "(w AND NOT (mask 12)) + (va AND mask 12) = (w AND NOT (mask 12)) OR (va AND mask 12)" for w
    by (rule disjunctive_add) (auto simp: bit_simps)
  then have "(w AND 0xfffff000) + (va AND 0xfff) = (w AND 0xfffff000) OR (va AND 0xfff)" for w
    by (simp only: frame_mask_eq) (simp add: mask_eq_exp_minus_1)
  moreover have "pa = (mmu_pte m pgd va AND 0xfffff000) OR (va AND 0xfff)"
    using assms(2) by (simp add: mmu_translate_def split: if_splits)
  ultimately show ?thesis
    by (simp add: paging_get_physical_address_def lower off same paging_get_pte_eq [OF assms(1) frame_mask_mod])
qed

theorem physical_address_is_page_walk_witness:
  "\<exists>paging s'. init_page_tables boot_state 7 = Inr (paging, s') \<and>
     paging_get_physical_address (kmem s') (load32 (kmem s') paging) 0xB8123 = Inr 0xB8123"
proof -
  obtain d s where d: "init_page_tables boot_state 7 = Inr (d, s)" "paging_desc_ok (kmem s) d"
    "ident_upto (kmem s) (load32 (kmem s) d) 7 1024" using boot_tables by blast
  then show ?thesis
    using physical_address_is_page_walk [of "kmem s" "load32 (kmem s) d" "0xB8123" "0xB8123"]
      ident_upto_translate [OF d(3)] by (auto simp: paging_desc_ok_def bit_simps)
qed

text \<open>
  C10. \<open>paging_map_range\<close> on a range that does not wrap around the address space succeeds and maps
  exactly the requested pages, in order and with the given protection; every other page keeps
  its entry, memory outside the page tables does not change and the tables stay well formed.
\<close>

theorem paging_map_range_maps:
  assumes "paging_desc_ok m d" "va mod 4096 = 0" "pa mod 4096 = 0" "0 \<le> n" "unat va + 4096 * nat n \<le> 4294967296"
  shows "\<exists>m'. paging_map_range m d va pa n prot = Inr (0, m') \<and> paging_desc_ok m' d \<and> load32 m' d = load32 m d \<and>
    (\<forall>va'. mmu_pte m' (load32 m d) va' =
      (if unat va \<le> unat va' \<and> unat va' < unat va + 4096 * nat n
       then (pa + of_nat (4096 * ((unat va' - unat va) div 4096))) OR of_int prot
       else mmu_pte m (load32 m d) va')) \<and>
    (\<forall>x. outside_tables m (load32 m d) x \<longrightarrow> m' x = m x)"
  using map_range_loop_result [OF assms(1,2,4), of 0 pa prot] assms(2,3,5)
  by (simp add: paging_map_range_def paging_is_aligned_def)

theorem paging_map_range_maps_witness:
  "\<exists>d s m'. init_page_tables boot_state 7 = Inr (d, s) \<and>
     paging_map_range (kmem s) d 0x400000 0x01800000 2 7 = Inr (0, m') \<and>
     mmu_pte m' (load32 (kmem s) d) 0x401234 = 0x01801007"
proof -
  obtain d s where d: "init_page_tables boot_state 7 = Inr (d, s)" "paging_desc_ok (kmem s) d"
    using boot_tables by blast
  have "\<exists>m'. paging_map_range (kmem s) d 0x400000 0x01800000 2 7 = Inr (0, m') \<and>
     mmu_pte m' (load32 (kmem s) d) 0x401234 = 0x01801007"
    using paging_map_range_maps [OF d(2), of "0x400000" "0x01800000" 2 7] by auto
  with d(1) show ?thesis by blast
qed

text \<open>
  C11. \<open>paging_set\<close> and \<open>paging_get_pte\<close>: an unaligned address is refused with \<open>-EINVARG\<close> and nothing is
  written; an aligned one is written, reads back, and no other page's entry changes.
\<close>

theorem paging_set_get:
  assumes "page_tables_ok m pgd"
  shows "if va mod 4096 = 0
    then \<exists>m'. paging_set m pgd va val = Inr (0, m') \<and> page_tables_ok m' pgd \<and> paging_get_pte m' pgd va = Inr val \<and>
      (\<forall>va'. va' mod 4096 = 0 \<and> va' \<noteq> va \<longrightarrow> paging_get_pte m' pgd va' = paging_get_pte m pgd va')
    else paging_set m pgd va val = Inr (- EINVARG, m)"
proof (cases "va mod 4096 = 0")
  case True
  let ?m = "store32 m (pt_frame m pgd (unat (pgi va)) + 4 * pti va) val"
  have ok: "page_tables_ok ?m pgd" by (rule page_tables_ok_store [OF assms])
  have "paging_get_pte ?m pgd va' = paging_get_pte m pgd va'" if "va' mod 4096 = 0" "va' \<noteq> va" for va'
  proof -
    have "unat va' mod 4096 = 0" "unat va mod 4096 = 0" using that(1) True by (simp_all only: aligned_unat)
    then have "unat va' div 4096 \<noteq> unat va div 4096"
      using that(2) by (metis mult_div_mod_eq word_unat_eq_iff)
    then show ?thesis
      by (simp add: paging_get_pte_eq [OF ok that(1)] paging_get_pte_eq [OF assms that(1)] mmu_pte_store [OF assms])
  qed
  then show ?thesis
    using True ok paging_set_eq [OF assms True] paging_get_pte_eq [OF ok True] mmu_pte_store [OF assms, of va val va]
    by simp
next
  case False
  then show ?thesis by (simp add: paging_set_def paging_is_aligned_def)
qed

theorem paging_set_get_witness:
  "\<exists>d s m'. init_page_tables boot_state 7 = Inr (d, s) \<and>
     paging_set (kmem s) (load32 (kmem s) d) 0x5000 0x99007 = Inr (0, m') \<and>
     paging_get_pte m' (load32 (kmem s) d) 0x5000 = Inr 0x99007"
proof -
  obtain d s where d: "init_page_tables boot_state 7 = Inr (d, s)" "paging_desc_ok (kmem s) d"
    using boot_tables by blast
  have "\<exists>m'. paging_set (kmem s) (load32 (kmem s) d) 0x5000 0x99007 = Inr (0, m') \<and>
     paging_get_pte m' (load32 (kmem s) d) 0x5000 = Inr 0x99007"
    using paging_set_get [of "kmem s" "load32 (kmem s) d" "0x5000" "0x99007"] d(2)
    by (auto simp: paging_desc_ok_def)
  with d(1) show ?thesis by blast
qed

end
