(* ===== verification/Disk.thy ===== *)
theory Disk
  imports Paging
begin

text \<open>
  The disk driver and byte streams over it: \<^verbatim>\<open>src/src/disk/disk.c\<close>, \<^verbatim>\<open>disk_stream.c\<close>, their headers
  and the port instructions of \<^verbatim>\<open>src/src/io/io.h\<close>.

  The ATA controller is not part of the sources. It is a parameter \<open>dev\<close> of every definition that
  reads a port: a function from the port accesses made so far and a port number to the value the
  port delivers. The accesses made so far are the component \<open>io_trace\<close> of the state. What the
  driver relies on is the predicate \<open>ata_ok\<close> below.
\<close>

section \<open>Port input and output\<close>

datatype io_event = Outb u16 u8 | Insb u16 u8 | Insw u16 u16

type_synonym device = "io_event list \<Rightarrow> u16 \<Rightarrow> u16"

definition outb :: "io_event list \<Rightarrow> u16 \<Rightarrow> u8 \<Rightarrow> io_event list" where
  "outb tr port val = tr @ [Outb port val]"

definition insb :: "device \<Rightarrow> io_event list \<Rightarrow> u16 \<Rightarrow> u8 \<times> io_event list" where
  "insb dev tr port = (let v = ucast (dev tr port) in (v, tr @ [Insb port v]))"

definition insw :: "device \<Rightarrow> io_event list \<Rightarrow> u16 \<Rightarrow> u16 \<times> io_event list" where
  "insw dev tr port = (let v = dev tr port in (v, tr @ [Insw port v]))"

section \<open>disk.c\<close>

abbreviation (input) BUSY_BIT :: u8 where "BUSY_BIT \<equiv> 0x08"
abbreviation (input) ATA_COMMAND_IO_PORT :: u16 where "ATA_COMMAND_IO_PORT \<equiv> 0x01F7"
abbreviation (input) ATA_DATA_PORT :: u16 where "ATA_DATA_PORT \<equiv> 0x01F0"
abbreviation (input) ATA_READ_SECTORS :: u8 where "ATA_READ_SECTORS \<equiv> 0x20"
abbreviation (input) DISK_SECTOR_SIZE :: int where "DISK_SECTOR_SIZE \<equiv> 512"

text \<open>The two values a \<^verbatim>\<open>struct disk *\<close> has in this kernel: NULL and the address of the global \<^verbatim>\<open>disk\<close>.\<close>

datatype disk_ptr = NoDisk | TheDisk

datatype disk_type = REAL

text \<open>\<^verbatim>\<open>filesystem\<close> says whether the disk is bound to the FAT16 driver, the only driver of the kernel.\<close>

datatype filesystem_ptr = NoFilesystem | Fat16Filesystem

record disk =
  dtype :: disk_type
  disk_id :: int
  sector_size :: int
  filesystem :: filesystem_ptr
  fs_private :: u32

text \<open>Waiting for the data request bit; \<open>None\<close> when it never comes.\<close>

partial_function (option) wait_ready :: "device \<Rightarrow> io_event list \<Rightarrow> io_event list option" where
  "wait_ready dev tr =
     (let (c, tr') = insb dev tr ATA_COMMAND_IO_PORT in
      if c AND BUSY_BIT \<noteq> 0 then Some tr' else wait_ready dev tr')"

text \<open>Copy of one sector: \<open>ptr\<close> is the byte index of the next 16-bit word in \<open>buf\<close>.\<close>

fun read_words :: "device \<Rightarrow> nat \<Rightarrow> io_event list \<Rightarrow> u8 list \<Rightarrow> nat \<Rightarrow> (u8 list \<times> nat \<times> io_event list) outcome" where
  "read_words dev 0 tr buf ptr = Inr (buf, ptr, tr)"
| "read_words dev (Suc j) tr buf ptr =
     (let (w, tr) = insw dev tr ATA_DATA_PORT in
      bind_r (upd_r buf (int ptr) (ucast w)) (\<lambda>buf.
        bind_r (upd_r buf (int (ptr + 1)) (ucast (drop_bit 8 w))) (\<lambda>buf.
          read_words dev j tr buf (ptr + 2))))"

function read_sectors :: "device \<Rightarrow> int \<Rightarrow> int \<Rightarrow> io_event list \<Rightarrow> u8 list \<Rightarrow> nat \<Rightarrow> (u8 list \<times> io_event list) outcome" where
  "read_sectors dev cnt i tr buf ptr =
     (if i < cnt
      then (case wait_ready dev tr of
          None \<Rightarrow> Inl Diverge
        | Some tr \<Rightarrow> bind_r (read_words dev 256 tr buf ptr) (\<lambda>(buf, ptr, tr).
            read_sectors dev cnt (i + 1) tr buf ptr))
      else Inr (buf, tr))"
  by pat_completeness auto
termination
  by (relation "measure (\<lambda>(d, cnt, i, tr, buf, ptr). nat (cnt - i))") auto

text \<open>\<^verbatim>\<open>lba\<close> is an \<^verbatim>\<open>int\<close>; its shifts are arithmetic.\<close>

definition ata_command :: "io_event list \<Rightarrow> int \<Rightarrow> int \<Rightarrow> io_event list" where
  "ata_command tr lba cnt =
     (let tr = outb tr 0x1F6 (of_int (drop_bit 24 lba) OR 0xE0);
          tr = outb tr 0x1F2 (of_int cnt);
          tr = outb tr 0x1F3 (of_int (lba AND 0xFF));
          tr = outb tr 0x1F4 (of_int (drop_bit 8 lba));
          tr = outb tr 0x1F5 (of_int (drop_bit 16 lba)) in
      outb tr ATA_COMMAND_IO_PORT ATA_READ_SECTORS)"

definition disk_read_sector :: "device \<Rightarrow> io_event list \<Rightarrow> int \<Rightarrow> int \<Rightarrow> u8 list \<Rightarrow> (int \<times> u8 list \<times> io_event list) outcome" where
  "disk_read_sector dev tr lba cnt buf =
     bind_r (read_sectors dev cnt 0 (ata_command tr lba cnt) buf 0) (\<lambda>(buf, tr). Inr (0, buf, tr))"

definition disk_get :: "int \<Rightarrow> disk_ptr" where
  "disk_get index = (if index \<noteq> 0 then NoDisk else TheDisk)"

definition disk_read_block :: "device \<Rightarrow> io_event list \<Rightarrow> disk_ptr \<Rightarrow> u32 \<Rightarrow> int \<Rightarrow> u8 list \<Rightarrow> (int \<times> u8 list \<times> io_event list) outcome" where
  "disk_read_block dev tr idisk lba cnt buf =
     (if idisk \<noteq> TheDisk then Inr (- EIO, buf, tr) else disk_read_sector dev tr (sint lba) cnt buf)"

section \<open>disk\_stream.c\<close>

record disk_stream =
  pos :: int
  stream_disk :: disk_ptr

record disk_state = paging_state +
  io_trace :: "io_event list"
  disk_dev :: disk
  streams :: "u32 \<rightharpoonup> disk_stream"

definition get_disk_stream :: "'a disk_state_scheme \<Rightarrow> int \<Rightarrow> (u32 \<times> 'a disk_state_scheme) outcome" where
  "get_disk_stream s disk_index =
     (let dsk = disk_get disk_index in
      if dsk = NoDisk then Inr (0, s)
      else bind_r (kzalloc s 8) (\<lambda>(p, s).
        if p = 0 then Inl NullDeref
        else Inr (p, s\<lparr>streams := (streams s)(p \<mapsto> \<lparr>pos = 0, stream_disk = dsk\<rparr>)\<rparr>)))"

definition disk_stream_seek :: "'a disk_state_scheme \<Rightarrow> u32 \<Rightarrow> int \<Rightarrow> (int \<times> 'a disk_state_scheme) outcome" where
  "disk_stream_seek s p new_pos =
     bind_r (deref (streams s) p) (\<lambda>st. Inr (0, s\<lparr>streams := (streams s)(p \<mapsto> st\<lparr>pos := new_pos\<rparr>)\<rparr>))"

text \<open>The copy loops of \<^verbatim>\<open>disk_stream_read\<close>: bytes \<open>i\<close> to \<open>e\<close> of the sector buffer go to \<open>out\<close> at \<open>o\<close>.\<close>

function copy_bytes :: "u8 list \<Rightarrow> int \<Rightarrow> int \<Rightarrow> u8 list \<Rightarrow> nat \<Rightarrow> (u8 list \<times> nat) outcome" where
  "copy_bytes buf i e out oi =
     (if i < e
      then bind_r (nth_r buf i) (\<lambda>b. bind_r (upd_r out (int oi) b) (\<lambda>out. copy_bytes buf (i + 1) e out (Suc oi)))
      else Inr (out, oi))"
  by pat_completeness auto
termination
  by (relation "measure (\<lambda>(b, i, e, out, oi). nat (e - i))") auto

declare copy_bytes.simps [simp del]

lemma smod_512: "(x :: int) smod 512 < 512" "- 512 < x smod 512"
  by (auto simp: signed_modulo_int_def sgn_if abs_if)

lemma stream_read_measure: "512 < x smod 512 + (t :: int) \<Longrightarrow> 0 < t"
  using smod_512(1) [of x] by linarith

function stream_read :: "device \<Rightarrow> io_event list \<Rightarrow> disk_stream \<Rightarrow> u8 list \<Rightarrow> nat \<Rightarrow> int \<Rightarrow>
    (int \<times> u8 list \<times> disk_stream \<times> io_event list) outcome" where
  "stream_read dev tr st out oi cnt =
     (let sector = pos st sdiv DISK_SECTOR_SIZE; offset = pos st smod DISK_SECTOR_SIZE in
      bind_r (disk_read_block dev tr (stream_disk st) (of_int sector) 1 (replicate 512 0)) (\<lambda>(rc, buf, tr).
        if rc < 0 then Inr (rc, out, st, tr)
        else if offset + cnt > DISK_SECTOR_SIZE
        then bind_r (copy_bytes buf offset DISK_SECTOR_SIZE out oi) (\<lambda>(out, oi).
          stream_read dev tr (st\<lparr>pos := pos st + (DISK_SECTOR_SIZE - offset)\<rparr>) out oi
            (cnt - (DISK_SECTOR_SIZE - offset)))
        else bind_r (copy_bytes buf offset (offset + cnt) out oi) (\<lambda>(out, oi).
          Inr (0, out, st\<lparr>pos := pos st + cnt\<rparr>, tr))))"
  by pat_completeness auto
termination
  by (relation "measure (\<lambda>(dev, tr, st, out, oi, cnt). nat cnt)") (auto simp: smod_512 dest: stream_read_measure)

text \<open>\<^verbatim>\<open>disk_stream_read\<close> on the stream that \<open>p\<close> points to, writing \<open>cnt\<close> bytes to \<open>out\<close> from index \<open>oi\<close>.\<close>

definition disk_stream_read :: "device \<Rightarrow> 'a disk_state_scheme \<Rightarrow> u32 \<Rightarrow> u8 list \<Rightarrow> nat \<Rightarrow> int \<Rightarrow>
    (int \<times> u8 list \<times> 'a disk_state_scheme) outcome" where
  "disk_stream_read dev s p out oi cnt =
     bind_r (deref (streams s) p) (\<lambda>st.
       bind_r (stream_read dev (io_trace s) st out oi cnt) (\<lambda>(rc, out, st, tr).
         Inr (rc, out, s\<lparr>streams := (streams s)(p \<mapsto> st), io_trace := tr\<rparr>)))"

definition disk_stream_close :: "'a disk_state_scheme \<Rightarrow> u32 \<Rightarrow> 'a disk_state_scheme outcome" where
  "disk_stream_close s p =
     bind_r (kfree s p) (\<lambda>(rc, s). Inr (s\<lparr>streams := (streams s)(p := None)\<rparr>))"

declare read_sectors.simps [simp del] stream_read.simps [simp del]

section \<open>The contract of the ATA controller\<close>

text \<open>
  \<open>ata_ok dev img n\<close>: after a READ SECTORS command for \<open>cnt\<close> sectors from \<open>lba\<close>, as long as fewer
  than \<open>256 * cnt\<close> words have been read, the data port delivers the next word of the disk image
  and the status port has the data request bit after at most \<open>n\<close> further status reads. Between
  the command and such a read only the status and the data port are read.
\<close>

fun is_status :: "io_event \<Rightarrow> bool" where
  "is_status (Insb p v) \<longleftrightarrow> p = ATA_COMMAND_IO_PORT"
| "is_status _ \<longleftrightarrow> False"

fun is_data :: "io_event \<Rightarrow> bool" where
  "is_data (Insw p v) \<longleftrightarrow> p = ATA_DATA_PORT"
| "is_data _ \<longleftrightarrow> False"

definition data_count :: "io_event list \<Rightarrow> nat" where
  "data_count es = length (filter is_data es)"

definition img_word :: "(nat \<Rightarrow> u8) \<Rightarrow> nat \<Rightarrow> u16" where
  "img_word img k = ucast (img (2 * k)) OR push_bit 8 (ucast (img (2 * k + 1)))"

definition ata_ok :: "device \<Rightarrow> (nat \<Rightarrow> u8) \<Rightarrow> nat \<Rightarrow> bool" where
  "ata_ok dev img n \<longleftrightarrow> (\<forall>tr lba cnt es ss.
     0 \<le> lba \<and> lba < 2 ^ 28 \<and> 0 < cnt \<and> cnt < 256 \<and> list_all (\<lambda>e. is_status e \<or> is_data e) es \<and>
     data_count es < 256 * nat cnt \<longrightarrow>
       dev (ata_command tr lba cnt @ es) ATA_DATA_PORT = img_word img (256 * nat lba + data_count es) \<and>
       (list_all is_status ss \<and> n \<le> length ss \<longrightarrow>
         (ucast (dev (ata_command tr lba cnt @ es @ ss) ATA_COMMAND_IO_PORT) :: u8) AND BUSY_BIT \<noteq> 0))"

section \<open>Reading sectors\<close>

lemma ata_okD:
  assumes "ata_ok dev img n" "0 \<le> lba" "lba < 2 ^ 28" "0 < cnt" "cnt < 256"
    "list_all (\<lambda>e. is_status e \<or> is_data e) es" "data_count es < 256 * nat cnt"
  shows "dev (ata_command tr lba cnt @ es) 0x1F0 = img_word img (256 * nat lba + data_count es)"
    "list_all is_status ss \<Longrightarrow> n \<le> length ss \<Longrightarrow>
      (ucast (dev (ata_command tr lba cnt @ es @ ss) 0x1F7) :: u8) AND 8 \<noteq> 0"
  using assms unfolding ata_ok_def by blast+

lemma data_count_simps [simp]:
  "data_count [] = 0" "data_count (xs @ ys) = data_count xs + data_count ys"
  "data_count [Insw 0x1F0 v] = 1" "data_count [Insb p w] = 0"
  by (simp_all add: data_count_def)

lemma data_count_status: "list_all is_status ss \<Longrightarrow> data_count ss = 0"
proof (induction ss)
  case (Cons e ss)
  then show ?case by (cases e) (auto simp: data_count_def)
qed simp

lemma wait_ready_result:
  assumes "ata_ok dev img n" "0 \<le> lba" "lba < 2 ^ 28" "0 < cnt" "cnt < 256"
    "list_all (\<lambda>e. is_status e \<or> is_data e) es" "data_count es < 256 * nat cnt" "list_all is_status ss"
  shows "\<exists>ss'. wait_ready dev (ata_command tr lba cnt @ es @ ss) = Some (ata_command tr lba cnt @ es @ ss @ ss') \<and>
    list_all is_status ss'"
  using assms(8)
proof (induction "n - length ss" arbitrary: ss)
  case 0
  then have "(ucast (dev (ata_command tr lba cnt @ es @ ss) 0x1F7) :: u8) AND 8 \<noteq> 0"
    by (intro ata_okD(2) [OF assms(1-7)]) auto
  then show ?case by (subst wait_ready.simps) (simp add: insb_def Let_def)
next
  case (Suc k)
  let ?c = "ucast (dev (ata_command tr lba cnt @ es @ ss) 0x1F7) :: u8"
  show ?case
  proof (cases "?c AND 8 = 0")
    case True
    have "k = n - length (ss @ [Insb 0x1F7 ?c])" using Suc.hyps(2) by simp
    from Suc.hyps(1) [OF this] Suc.prems True show ?thesis
      by (subst wait_ready.simps) (auto simp: insb_def Let_def)
  next
    case False
    then show ?thesis by (subst wait_ready.simps) (simp add: insb_def Let_def)
  qed
qed

lemma img_word_bytes: "(ucast (img_word img k) :: u8) = img (2 * k)" "(ucast (drop_bit 8 (img_word img k)) :: u8) = img (2 * k + 1)"
  by (rule bit_word_eqI; auto simp: img_word_def bit_simps dest: bit_imp_le_length)+

text \<open>The bytes \<open>a\<close> to \<open>a + n\<close> of the image.\<close>

definition img_bytes :: "(nat \<Rightarrow> u8) \<Rightarrow> nat \<Rightarrow> nat \<Rightarrow> u8 list" where
  "img_bytes img a n = map img [a..<a + n]"

lemma img_bytes_simps [simp]: "length (img_bytes img a n) = n" "img_bytes img a 0 = []"
  by (simp_all add: img_bytes_def)

lemma img_bytes_add: "img_bytes img a (m + n) = img_bytes img a m @ img_bytes img (a + m) n"
  by (simp add: img_bytes_def upt_add_eq_append [of a "a + m" n] add.assoc [symmetric])

lemma img_bytes_Suc: "img_bytes img a (Suc n) = img a # img_bytes img (Suc a) n"
  by (simp add: img_bytes_def upt_conv_Cons del: upt_Suc)

lemma img_bytes_nth [simp]: "i < n \<Longrightarrow> img_bytes img a n ! i = img (a + i)"
  by (simp add: img_bytes_def)

lemma img_bytes_take_drop: "k + n \<le> m \<Longrightarrow> take n (drop k (img_bytes img a m)) = img_bytes img (a + k) n"
  by (rule nth_equalityI) (auto simp: add.assoc)

lemma read_words_result:
  assumes "ata_ok dev img n" "0 \<le> lba" "lba < 2 ^ 28" "0 < cnt" "cnt < 256"
    "list_all (\<lambda>e. is_status e \<or> is_data e) es" "data_count es + j \<le> 256 * nat cnt" "ptr + 2 * j \<le> length buf"
  shows "\<exists>es'. read_words dev j (ata_command tr lba cnt @ es) buf ptr =
      Inr (take ptr buf @ img_bytes img (2 * (256 * nat lba + data_count es)) (2 * j) @ drop (ptr + 2 * j) buf,
        ptr + 2 * j, ata_command tr lba cnt @ es @ es') \<and>
    list_all (\<lambda>e. is_status e \<or> is_data e) es' \<and> data_count es' = j"
  using assms(6-8)
proof (induction j arbitrary: es buf ptr)
  case (Suc j)
  let ?k = "256 * nat lba + data_count es"
  let ?e = "Insw 0x1F0 (img_word img ?k)"
  let ?buf = "buf[ptr := img (2 * ?k), Suc ptr := img (2 * ?k + 1)]"
  have w: "dev (ata_command tr lba cnt @ es) 0x1F0 = img_word img ?k"
    using Suc.prems by (intro ata_okD(1) [OF assms(1-5)]) auto
  have "\<exists>es'. read_words dev j (ata_command tr lba cnt @ es @ [?e]) ?buf (ptr + 2) =
      Inr (take (ptr + 2) ?buf @ img_bytes img (2 * (256 * nat lba + data_count (es @ [?e]))) (2 * j) @ drop (ptr + 2 + 2 * j) ?buf,
        ptr + 2 + 2 * j, ata_command tr lba cnt @ (es @ [?e]) @ es') \<and>
    list_all (\<lambda>e. is_status e \<or> is_data e) es' \<and> data_count es' = j"
    using Suc.prems Suc.IH [of "es @ [?e]" "ptr + 2" ?buf] by simp
  then obtain es' where es': "read_words dev j (ata_command tr lba cnt @ es @ [?e]) ?buf (ptr + 2) =
      Inr (take (ptr + 2) ?buf @ img_bytes img (2 * (?k + 1)) (2 * j) @ drop (ptr + 2 + 2 * j) ?buf,
        ptr + 2 + 2 * j, ata_command tr lba cnt @ es @ ?e # es')"
    "list_all (\<lambda>e. is_status e \<or> is_data e) es'" "data_count es' = j" by (auto simp: add.assoc)
  have t: "take (ptr + 2) ?buf = take ptr buf @ [img (2 * ?k), img (2 * ?k + 1)]"
    using Suc.prems(3) by (simp add: take_Suc_conv_app_nth)
  have i: "img_bytes img (2 * ?k) (2 * Suc j) = [img (2 * ?k), img (2 * ?k + 1)] @ img_bytes img (2 * (?k + 1)) (2 * j)"
    by (simp add: img_bytes_Suc)
  have d: "drop (ptr + 2 + 2 * j) ?buf = drop (ptr + 2 * Suc j) buf" by simp
  have "read_words dev (Suc j) (ata_command tr lba cnt @ es) buf ptr =
    read_words dev j (ata_command tr lba cnt @ es @ [?e]) ?buf (ptr + 2)"
    using Suc.prems(3) w
    by (simp add: insw_def Let_def upd_r_def img_word_bytes nat_add_distrib)
  then show ?case
    unfolding es'(1) t i d using es'(2,3) by (intro exI [of _ "?e # es'"]) (simp add: data_count_def)
qed simp

lemma read_sectors_result:
  assumes "ata_ok dev img n" "0 \<le> lba" "lba < 2 ^ 28" "0 < cnt" "cnt < 256"
    "list_all (\<lambda>e. is_status e \<or> is_data e) es" "0 \<le> i" "i \<le> cnt" "data_count es = 256 * nat i"
    "ptr = 512 * nat i" "512 * nat cnt \<le> length buf"
  shows "\<exists>tr'. read_sectors dev cnt i (ata_command tr lba cnt @ es) buf ptr =
    Inr (take ptr buf @ img_bytes img (512 * nat lba + ptr) (512 * nat (cnt - i)) @ drop (512 * nat cnt) buf, tr')"
  using assms(6-11)
proof (induction "nat (cnt - i)" arbitrary: i es buf ptr)
  case 0
  then have "i = cnt" by simp
  with 0 show ?case by (subst read_sectors.simps) simp
next
  case (Suc k)
  then have lt: "i < cnt" "k = nat (cnt - (i + 1))" by linarith+
  have c: "data_count es < 256 * nat cnt" "data_count es + 256 \<le> 256 * nat cnt" "ptr + 512 \<le> 512 * nat cnt"
    using Suc.prems(2-5) lt(1) by linarith+
  obtain ss where ss: "wait_ready dev (ata_command tr lba cnt @ es) = Some (ata_command tr lba cnt @ es @ ss)" "list_all is_status ss"
    using wait_ready_result [OF assms(1-5) Suc.prems(1) c(1), of "[]"] by auto
  have es: "list_all (\<lambda>e. is_status e \<or> is_data e) (es @ ss)" "data_count (es @ ss) = 256 * nat i"
    using Suc.prems(1,4) ss(2) data_count_status [OF ss(2)] by (auto simp: list_all_iff)
  obtain es' where es': "read_words dev 256 (ata_command tr lba cnt @ es @ ss) buf ptr =
      Inr (take ptr buf @ img_bytes img (2 * (256 * nat lba + 256 * nat i)) 512 @ drop (ptr + 512) buf,
        ptr + 512, ata_command tr lba cnt @ (es @ ss) @ es')"
    "list_all (\<lambda>e. is_status e \<or> is_data e) es'" "data_count es' = 256"
    using read_words_result [OF assms(1-5) es(1), of 256 ptr buf tr] es(2) c(2,3) Suc.prems(4,6) by auto
  define b where "b = take ptr buf @ img_bytes img (512 * nat lba + ptr) 512 @ drop (ptr + 512) buf"
  have lb: "length b = length buf" using c(3) Suc.prems(6) by (simp add: b_def)
  have p1: "ptr + 512 = 512 * nat (i + 1)" using Suc.prems(2,5) by (simp add: nat_add_distrib)
  have "\<exists>tr'. read_sectors dev cnt (i + 1) (ata_command tr lba cnt @ (es @ ss) @ es') b (ptr + 512) =
    Inr (take (ptr + 512) b @ img_bytes img (512 * nat lba + (ptr + 512)) (512 * nat (cnt - (i + 1))) @ drop (512 * nat cnt) b, tr')"
    using Suc.hyps(1) [OF lt(2), of "(es @ ss) @ es'" "ptr + 512" b] es es'(2,3) Suc.prems(2,6) lt(1) lb p1
    by (simp add: nat_add_distrib add.commute add.left_commute)
  then obtain tr' where tr': "read_sectors dev cnt (i + 1) (ata_command tr lba cnt @ (es @ ss) @ es') b (ptr + 512) =
    Inr (take (ptr + 512) b @ img_bytes img (512 * nat lba + (ptr + 512)) (512 * nat (cnt - (i + 1))) @ drop (512 * nat cnt) b, tr')"
    by blast
  have e2: "2 * (256 * nat lba + 256 * nat i) = 512 * nat lba + ptr" using Suc.prems(5) by simp
  have "read_sectors dev cnt i (ata_command tr lba cnt @ es) buf ptr =
    read_sectors dev cnt (i + 1) (ata_command tr lba cnt @ (es @ ss) @ es') b (ptr + 512)"
    using lt(1) ss(1) es'(1) by (subst read_sectors.simps) (simp add: b_def Suc.prems(5))
  moreover have "take (ptr + 512) b = take ptr buf @ img_bytes img (512 * nat lba + ptr) 512"
    using c(3) Suc.prems(6) by (simp add: b_def)
  moreover have "drop (512 * nat cnt) b = drop (512 * nat cnt) buf"
    using c(3) Suc.prems(6) by (simp add: b_def)
  moreover have "512 * nat (cnt - i) = 512 + 512 * nat (cnt - (i + 1))" using lt(1) by linarith
  ultimately show ?case using tr' by (simp add: img_bytes_add add.assoc)
qed

lemma disk_read_sector_result:
  assumes "ata_ok dev img n" "0 \<le> lba" "lba < 2 ^ 28" "0 < cnt" "cnt < 256" "512 * nat cnt \<le> length buf"
  shows "\<exists>tr'. disk_read_sector dev tr lba cnt buf =
    Inr (0, img_bytes img (512 * nat lba) (512 * nat cnt) @ drop (512 * nat cnt) buf, tr')"
  using read_sectors_result [OF assms(1-5), of "[]" 0 0 buf tr] assms(4,6)
  by (auto simp: disk_read_sector_def)

section \<open>Reading streams\<close>

lemma img_bytes_drop: "drop k (img_bytes img a m) = img_bytes img (a + k) (m - k)"
  by (cases "k \<le> m") (simp_all add: img_bytes_def drop_map)

lemma copy_bytes_result:
  assumes "0 \<le> i" "i \<le> e" "e \<le> int (length buf)" "oi + nat (e - i) \<le> length out"
  shows "copy_bytes buf i e out oi =
    Inr (take oi out @ take (nat (e - i)) (drop (nat i) buf) @ drop (oi + nat (e - i)) out, oi + nat (e - i))"
  using assms
proof (induction "nat (e - i)" arbitrary: i out oi)
  case 0
  then show ?case by (subst copy_bytes.simps) simp
next
  case (Suc k)
  then have lt: "i < e" "k = nat (e - (i + 1))" by linarith+
  have b: "nat i < length buf" "oi < length out" using Suc.prems lt(1) by linarith+
  have n: "nat (e - i) = Suc (nat (e - (i + 1)))" using lt(1) by linarith
  have d: "drop (nat i) buf = buf ! nat i # drop (nat (i + 1)) buf"
    using b(1) Suc.prems(1) by (simp add: Cons_nth_drop_Suc nat_add_distrib)
  have "copy_bytes buf i e out oi = copy_bytes buf (i + 1) e (out[oi := buf ! nat i]) (Suc oi)"
    using lt(1) b Suc.prems(1) by (subst copy_bytes.simps) (simp add: upd_r_of_nat)
  moreover have "\<dots> = Inr (take (Suc oi) (out[oi := buf ! nat i]) @ take k (drop (nat (i + 1)) buf) @
      drop (Suc oi + k) (out[oi := buf ! nat i]), Suc oi + k)"
    using Suc.hyps(1) [OF lt(2), of "Suc oi" "out[oi := buf ! nat i]"] Suc.prems lt n by simp
  ultimately show ?case
    using b(2) n lt(2) d by (simp add: take_Suc_conv_app_nth)
qed

lemma sdiv_smod_nonneg: "0 \<le> x \<Longrightarrow> x sdiv 512 = x div 512" "0 \<le> x \<Longrightarrow> x smod 512 = x mod (512 :: int)"
  by (auto simp: signed_divide_int_def signed_modulo_int_def sgn_if abs_if)

lemma read_block_one:
  assumes "ata_ok dev img n" "0 \<le> sec" "sec < 2 ^ 28"
  shows "\<exists>tr'. disk_read_block dev tr TheDisk (of_int sec) 1 (replicate 512 0) =
    Inr (0, img_bytes img (512 * nat sec) 512, tr')"
  using disk_read_sector_result [OF assms, of 1 "replicate 512 0" tr] assms(2,3)
  by (simp add: disk_read_block_def sint_of_int_small)

lemma stream_pos_split:
  assumes "0 \<le> pos st"
  obtains S r where "pos st = int (512 * S + r)" "r < 512" "pos st sdiv 512 = int S" "pos st smod 512 = int r"
proof (rule that [of "nat (pos st) div 512" "nat (pos st) mod 512"])
  have e: "pos st = int (nat (pos st))" using assms by simp
  show "pos st = int (512 * (nat (pos st) div 512) + nat (pos st) mod 512)" using assms by simp
  show "nat (pos st) mod 512 < 512" by simp
  show "pos st sdiv 512 = int (nat (pos st) div 512)" "pos st smod 512 = int (nat (pos st) mod 512)"
    unfolding sdiv_smod_nonneg [OF assms] by (subst e, simp add: zdiv_int zmod_int del: int_nat_eq)+
qed

lemma stream_read_step:
  assumes "ata_ok dev img n" "stream_disk st = TheDisk" "pos st = int (512 * S + r)" "r < 512"
    "pos st sdiv 512 = int S" "pos st smod 512 = int r" "pos st < 2 ^ 31" "0 \<le> cnt"
  shows "512 < r + nat cnt \<Longrightarrow> oi + (512 - r) \<le> length out \<Longrightarrow>
      \<exists>tr'. stream_read dev tr st out oi cnt = stream_read dev tr' (st\<lparr>pos := pos st + int (512 - r)\<rparr>)
        (take oi out @ img_bytes img (512 * S + r) (512 - r) @ drop (oi + (512 - r)) out) (oi + (512 - r))
        (cnt - int (512 - r))"
    "r + nat cnt \<le> 512 \<Longrightarrow> oi + nat cnt \<le> length out \<Longrightarrow>
      \<exists>tr'. stream_read dev tr st out oi cnt =
        Inr (0, take oi out @ img_bytes img (512 * S + r) (nat cnt) @ drop (oi + nat cnt) out,
          st\<lparr>pos := pos st + cnt\<rparr>, tr')"
proof -
  have "0 \<le> int S" "int S < 2 ^ 28" using assms(3,7) by simp_all
  from read_block_one [OF assms(1) this] obtain tr1 where
    rd: "disk_read_block dev tr TheDisk (of_int (int S)) 1 (replicate 512 0) = Inr (0, img_bytes img (512 * S) 512, tr1)"
    by auto
  let ?b = "img_bytes img (512 * S) 512"
  have r512: "int (512 - r) = 512 - int r" using assms(4) by simp
  show "\<exists>tr'. stream_read dev tr st out oi cnt = stream_read dev tr' (st\<lparr>pos := pos st + int (512 - r)\<rparr>)
        (take oi out @ img_bytes img (512 * S + r) (512 - r) @ drop (oi + (512 - r)) out) (oi + (512 - r))
        (cnt - int (512 - r))" if h: "512 < r + nat cnt" "oi + (512 - r) \<le> length out"
  proof -
    have "nat (512 - int r) = 512 - r" by simp
    then have cp: "copy_bytes ?b (int r) 512 out oi =
      Inr (take oi out @ img_bytes img (512 * S + r) (512 - r) @ drop (oi + (512 - r)) out, oi + (512 - r))"
      using copy_bytes_result [of "int r" 512 ?b oi out] assms(4) h(2) by (simp add: img_bytes_drop)
    have c: "512 < int r + cnt" using h(1) assms(8) by linarith
    show ?thesis
      using rd cp c unfolding stream_read.simps [of dev tr st] assms(2,5,6) r512
      by (intro exI [of _ tr1]) (simp add: Let_def)
  qed
  show "\<exists>tr'. stream_read dev tr st out oi cnt =
        Inr (0, take oi out @ img_bytes img (512 * S + r) (nat cnt) @ drop (oi + nat cnt) out,
          st\<lparr>pos := pos st + cnt\<rparr>, tr')" if h: "r + nat cnt \<le> 512" "oi + nat cnt \<le> length out"
  proof -
    have "copy_bytes ?b (int r) (int r + cnt) out oi =
      Inr (take oi out @ img_bytes img (512 * S + r) (nat cnt) @ drop (oi + nat cnt) out, oi + nat cnt)"
      using copy_bytes_result [of "int r" "int r + cnt" ?b oi out] assms(8) h
        img_bytes_take_drop [of r "nat cnt" 512 img "512 * S"] by simp
    moreover have "\<not> 512 < int r + cnt" using h(1) assms(8) by linarith
    ultimately show ?thesis
      using rd unfolding stream_read.simps [of dev tr st] assms(2,5,6)
      by (intro exI [of _ tr1]) (simp add: Let_def)
  qed
qed

lemma stream_read_result:
  assumes "ata_ok dev img n" "stream_disk st = TheDisk" "0 \<le> pos st" "0 \<le> cnt" "pos st + cnt < 2 ^ 31"
    "oi + nat cnt \<le> length out"
  shows "\<exists>tr'. stream_read dev tr st out oi cnt =
    Inr (0, take oi out @ img_bytes img (nat (pos st)) (nat cnt) @ drop (oi + nat cnt) out,
      st\<lparr>pos := pos st + cnt\<rparr>, tr')"
  using assms(2-6)
proof (induction "nat cnt" arbitrary: cnt st tr out oi rule: less_induct)
  case less
  obtain S r where p: "pos st = int (512 * S + r)" "r < 512" "pos st sdiv 512 = int S" "pos st smod 512 = int r"
    using stream_pos_split [OF less.prems(2)] by blast
  have np: "nat (pos st) = 512 * S + r" using p(1) by simp
  have p31: "pos st < 2 ^ 31" using less.prems(3,4) by linarith
  note step = stream_read_step [OF assms(1) less.prems(1) p p31 less.prems(3), of oi out tr]
  show ?case
  proof (cases "512 < r + nat cnt")
    case True
    let ?m = "512 - r"
    let ?out = "take oi out @ img_bytes img (512 * S + r) ?m @ drop (oi + ?m) out"
    let ?st = "st\<lparr>pos := pos st + int ?m\<rparr>"
    have m: "?m \<le> nat cnt" "0 < ?m" "nat (cnt - int ?m) = nat cnt - ?m" "oi + ?m \<le> length out"
      using True p(2) less.prems(3,5) by linarith+
    from step(1) [OF True m(4)] obtain tr1 where
      eq: "stream_read dev tr st out oi cnt = stream_read dev tr1 ?st ?out (oi + ?m) (cnt - int ?m)" by blast
    have "\<exists>tr'. stream_read dev tr1 ?st ?out (oi + ?m) (cnt - int ?m) =
      Inr (0, take (oi + ?m) ?out @ img_bytes img (nat (pos ?st)) (nat (cnt - int ?m)) @
        drop (oi + ?m + nat (cnt - int ?m)) ?out, ?st\<lparr>pos := pos ?st + (cnt - int ?m)\<rparr>, tr')"
    proof (rule less.hyps)
      show "nat (cnt - int ?m) < nat cnt" using m by linarith
      show "stream_disk ?st = TheDisk" "0 \<le> pos ?st" using less.prems(1,2) by simp_all
      show "0 \<le> cnt - int ?m" "pos ?st + (cnt - int ?m) < 2 ^ 31" using m(1) less.prems(3,4) by simp_all
      show "oi + ?m + nat (cnt - int ?m) \<le> length ?out" using m less.prems(5) by simp
    qed
    moreover have "nat (pos ?st) = 512 * S + r + ?m" using p(1) by simp
    moreover have "img_bytes img (512 * S + r) (nat cnt) =
      img_bytes img (512 * S + r) ?m @ img_bytes img (512 * S + r + ?m) (nat cnt - ?m)"
      using img_bytes_add [of img "512 * S + r" ?m "nat cnt - ?m"] m(1) by simp
    ultimately show ?thesis unfolding eq np using less.prems(5) m by (auto simp: add.commute)
  next
    case False
    with step(2) less.prems(5) show ?thesis unfolding np by simp
  qed
qed

lemma disk_stream_read_result:
  assumes "ata_ok dev img n" "streams s p = Some st" "stream_disk st = TheDisk" "0 \<le> pos st" "0 \<le> cnt"
    "pos st + cnt < 2 ^ 31" "oi + nat cnt \<le> length out"
  shows "\<exists>tr'. disk_stream_read dev s p out oi cnt =
    Inr (0, take oi out @ img_bytes img (nat (pos st)) (nat cnt) @ drop (oi + nat cnt) out,
      s\<lparr>streams := (streams s)(p \<mapsto> st\<lparr>pos := pos st + cnt\<rparr>), io_trace := tr'\<rparr>)"
  using stream_read_result [OF assms(1,3-7), of "io_trace s"] assms(2)
  by (auto simp: disk_stream_read_def)

section \<open>A controller that meets the contract\<close>

text \<open>
  A controller that is always ready: it recovers the sector number from the last command in
  the trace and counts the data words read since.
\<close>

fun sim_scan :: "io_event list \<Rightarrow> nat \<times> nat" where
  "sim_scan (Insw p v # r) = (let (l, k) = sim_scan r in (l, if p = 0x1F0 then Suc k else k))"
| "sim_scan (Insb p v # r) = sim_scan r"
| "sim_scan (Outb p v # Outb p5 v5 # Outb p4 v4 # Outb p3 v3 # Outb p2 v2 # Outb p6 v6 # r) =
     (unat v3 + 256 * unat v4 + 65536 * unat v5 + 16777216 * unat (v6 AND 0x0F), 0)"
| "sim_scan _ = (0, 0)"

definition sim_ata :: "(nat \<Rightarrow> u8) \<Rightarrow> device" where
  "sim_ata img tr port =
     (if port = 0x1F7 then 8 else let (l, k) = sim_scan (rev tr) in img_word img (256 * l + k))"

lemma unat_of_int_u8: "unat (of_int k :: u8) = nat (k mod 256)"
  by (simp add: unat_eq_nat_uint uint_word_of_int)

lemma low_byte: "(k :: int) AND 0xFF = k mod 256"
  using take_bit_eq_mask [of 8 k] by (simp add: mask_eq_exp_minus_1 take_bit_eq_mod)

lemma low_nibble: "unat ((w :: u8) AND 0x0F) = unat w mod 16"
proof -
  have "w AND 0x0F = w mod 16"
    using take_bit_eq_mask [of 4 w] by (simp add: mask_eq_exp_minus_1 take_bit_eq_mod)
  then show ?thesis by (simp add: unat_mod)
qed

lemma drive_bits: "((w :: u8) OR 0xE0) AND 0x0F = w AND 0x0F"
  by (simp add: word_ao_dist)

lemma lba_bytes:
  assumes "0 \<le> lba" "lba < 2 ^ 28"
  shows "nat (lba mod 256) + 256 * nat ((lba div 256) mod 256) + 65536 * nat ((lba div 65536) mod 256) +
    16777216 * (nat ((lba div 16777216) mod 256) mod 16) = nat lba"
proof -
  obtain k where k: "lba = int k" using assms(1) nonneg_int_cases by blast
  have "k < 268435456" using assms(2) k by simp
  then have "k div 16777216 mod 256 mod 16 = k div 16777216" by (auto simp: less_mult_imp_div_less)
  moreover have "k mod 256 + 256 * (k div 256 mod 256) + 65536 * (k div 65536 mod 256) + 16777216 * (k div 16777216) = k"
  proof -
    have "k div 256 div 256 = k div 65536" "k div 65536 div 256 = k div 16777216"
      by (simp_all add: div_mult2_eq [symmetric])
    with div_mult_mod_eq [of k 256] div_mult_mod_eq [of "k div 256" 256] div_mult_mod_eq [of "k div 65536" 256]
    show ?thesis by linarith
  qed
  moreover have "nat (int k div 256 mod 256) = k div 256 mod 256" "nat (int k div 65536 mod 256) = k div 65536 mod 256"
    "nat (int k div 16777216 mod 256) = k div 16777216 mod 256" "nat (int k mod 256) = k mod 256"
    by (simp_all only: of_nat_numeral [symmetric, where ?'a = int] zdiv_int [symmetric] zmod_int [symmetric] nat_int)
  ultimately show ?thesis unfolding k by simp
qed

lemma ata_command_scan:
  assumes "0 \<le> lba" "lba < 2 ^ 28"
  shows "sim_scan (rev (ata_command tr lba cnt)) = (nat lba, 0)"
  using lba_bytes [OF assms]
  by (simp add: ata_command_def outb_def Let_def drive_bits low_nibble low_byte unat_of_int_u8 drop_bit_eq_div)

lemma sim_scan_reads:
  assumes "list_all (\<lambda>e. is_status e \<or> is_data e) es"
  shows "sim_scan (rev es @ r) = (fst (sim_scan r), snd (sim_scan r) + data_count es)"
  using assms
proof (induction es rule: rev_induct)
  case (snoc e es)
  then show ?case by (cases e) (auto simp: data_count_def case_prod_beta)
qed simp

lemma sim_ata_ok: "ata_ok (sim_ata img) img 0"
proof -
  have "sim_scan (rev (ata_command tr lba cnt @ es)) = (nat lba, data_count es)"
    if "0 \<le> lba" "lba < 2 ^ 28" "list_all (\<lambda>e. is_status e \<or> is_data e) es" for tr lba cnt es
    using sim_scan_reads [OF that(3), of "rev (ata_command tr lba cnt)"] ata_command_scan [OF that(1,2)] by simp
  then show ?thesis by (auto simp: ata_ok_def sim_ata_def)
qed

section \<open>Properties\<close>


definition demo_disk_state :: disk_state where
  "demo_disk_state = \<lparr>kernel_heap = demo_heap, kmem = (\<lambda>_. 0), current_pgd = 0, cr3 = 0, io_trace = [],
     disk_dev = \<lparr>dtype = REAL, disk_id = 0, sector_size = 512, filesystem = NoFilesystem, fs_private = 0\<rparr>,
     streams = [0x01000000 \<mapsto> \<lparr>pos = 510, stream_disk = TheDisk\<rparr>]\<rparr>"




end
