(* ===== verification/PathParser.thy ===== *)
theory PathParser
  imports Disk
begin

text \<open>
  The path parser \<^verbatim>\<open>src/src/fs/pparser.c\<close>: \<^verbatim>\<open>0:/bin/shell.elf\<close> becomes a root structure with the drive
  number and a linked list of path parts. The structures and the character buffers are heap
  objects; the state keeps one store per type, from address to contents. Addresses come
  from \<open>kzalloc\<close> and go back through \<open>kfree\<close>, which also removes the object from its store.
\<close>

section \<open>Data\<close>

record path_root =
  drive_no :: int
  first_part :: u32

record path_part =
  part :: u32
  part_next :: u32

record path_state = disk_state +
  path_roots :: "u32 \<rightharpoonup> path_root"
  path_parts :: "u32 \<rightharpoonup> path_part"
  char_bufs :: "u32 \<rightharpoonup> u8 list"

section \<open>Operations\<close>

text \<open>\<open>[58, 47, 0]\<close> is the string literal \<^verbatim>\<open>":/"\<close>.\<close>

definition path_valid_form :: "u8 list \<Rightarrow> bool outcome" where
  "path_valid_form filename =
     bind_r (strnlen filename MAX_FILE_PATH_CHARS) (\<lambda>len.
       if \<not> len > 2 then Inr False
       else bind_r (nth_r filename 0) (\<lambda>c.
         if \<not> is_digit c then Inr False
         else bind_r (memcmp (drop 1 filename) [58, 47, 0] 2) (\<lambda>r. Inr (r = 0))))"

definition get_drive_by_path :: "u8 list \<Rightarrow> (int \<times> u8 list) outcome" where
  "get_drive_by_path path =
     bind_r (path_valid_form path) (\<lambda>valid.
       if \<not> valid then Inr (- EBADPATH, path)
       else bind_r (nth_r path 0) (\<lambda>c. Inr (ctoi c, drop 3 path)))"

definition pparser_create_root :: "'a path_state_scheme \<Rightarrow> int \<Rightarrow> (u32 \<times> 'a path_state_scheme) outcome" where
  "pparser_create_root s drive =
     bind_r (kzalloc s 8) (\<lambda>(path_r, s).
       if path_r = 0 then Inl NullDeref
       else Inr (path_r, s\<lparr>path_roots := (path_roots s)(path_r \<mapsto> \<lparr>drive_no = drive, first_part = 0\<rparr>)\<rparr>))"

text \<open>The copying loop; \<open>47\<close> is the slash. A null buffer has no element to write to.\<close>

fun part_loop :: "u8 list \<Rightarrow> nat \<Rightarrow> u8 list \<Rightarrow> (u8 list \<times> nat \<times> u8 list) outcome" where
  "part_loop buf i [] = Inl OutOfBounds"
| "part_loop buf i (c # path) =
     (if c \<noteq> 47 \<and> c \<noteq> 0
      then bind_r (upd_r buf (int i) c) (\<lambda>buf. part_loop buf (Suc i) path)
      else Inr (buf, i, c # path))"

definition skip_slash :: "u8 list \<Rightarrow> u8 list" where
  "skip_slash path = (if path \<noteq> [] \<and> hd path = 47 then tl path else path)"

definition pparser_get_path_part :: "'a path_state_scheme \<Rightarrow> u8 list \<Rightarrow> (u32 \<times> 'a path_state_scheme \<times> u8 list) outcome" where
  "pparser_get_path_part s path =
     bind_r (kzalloc s (of_nat MAX_FILE_PATH_CHARS)) (\<lambda>(result_path_part, s).
       bind_r (part_loop (if result_path_part = 0 then [] else replicate MAX_FILE_PATH_CHARS 0) 0 path)
         (\<lambda>(buf, i, path).
           let path = skip_slash path in
           if i = 0 then bind_r (kfree s result_path_part) (\<lambda>(rc, s). Inr (0, s, path))
           else Inr (result_path_part, s\<lparr>char_bufs := (char_bufs s)(result_path_part \<mapsto> buf)\<rparr>, path)))"

definition parse_path_part :: "'a path_state_scheme \<Rightarrow> u32 \<Rightarrow> u8 list \<Rightarrow> (u32 \<times> 'a path_state_scheme \<times> u8 list) outcome" where
  "parse_path_part s last_part path =
     bind_r (pparser_get_path_part s path) (\<lambda>(path_part_str, s, path).
       if path_part_str = 0 then Inr (0, s, path)
       else bind_r (kzalloc s 8) (\<lambda>(p, s).
         if p = 0 then Inl NullDeref
         else let s = s\<lparr>path_parts := (path_parts s)(p \<mapsto> \<lparr>part = path_part_str, part_next = 0\<rparr>)\<rparr> in
           if last_part = 0 then Inr (p, s, path)
           else bind_r (deref (path_parts s) last_part) (\<lambda>lp.
             Inr (p, s\<lparr>path_parts := (path_parts s)(last_part \<mapsto> lp\<lparr>part_next := p\<rparr>)\<rparr>, path))))"

text \<open>Freeing the parts: \<open>None\<close> when the list never ends.\<close>

partial_function (option) free_parts_loop :: "'a path_state_scheme \<Rightarrow> u32 \<Rightarrow> 'a path_state_scheme outcome option" where
  "free_parts_loop s p =
     (if p = 0 then Some (Inr s)
      else case deref (path_parts s) p of
          Inl e \<Rightarrow> Some (Inl e)
        | Inr pp \<Rightarrow> (case bind_r (kfree s (part pp)) (\<lambda>(rc, s). kfree (s\<lparr>char_bufs := (char_bufs s)(part pp := None)\<rparr>) p) of
            Inl e \<Rightarrow> Some (Inl e)
          | Inr (rc, s) \<Rightarrow> free_parts_loop (s\<lparr>path_parts := (path_parts s)(p := None)\<rparr>) (part_next pp)))"

definition pparser_free :: "'a path_state_scheme \<Rightarrow> u32 \<Rightarrow> 'a path_state_scheme outcome" where
  "pparser_free s root =
     bind_r (deref (path_roots s) root) (\<lambda>r.
       case free_parts_loop s (first_part r) of
         None \<Rightarrow> Inl Diverge
       | Some res \<Rightarrow> bind_r res (\<lambda>s.
           bind_r (kfree s root) (\<lambda>(rc, s). Inr (s\<lparr>path_roots := (path_roots s)(root := None)\<rparr>))))"

lemma part_loop_path:
  "part_loop buf i path = Inr (buf', j, path') \<Longrightarrow>
    i \<le> j \<and> length path' + (j - i) = length path \<and> path' \<noteq> []"
proof (induction buf i path rule: part_loop.induct)
  case (2 buf i c path)
  show ?case
  proof (cases "c \<noteq> 47 \<and> c \<noteq> 0")
    case True
    with 2(2) obtain b where b: "upd_r buf (int i) c = Inr b" "part_loop b (Suc i) path = Inr (buf', j, path')"
      by (auto simp: bind_r_eq_Inr_iff)
    with 2(1) [OF True b] show ?thesis by (auto simp: Suc_diff_le)
  next
    case False
    with 2(2) show ?thesis by auto
  qed
qed simp

lemma get_path_part_shorter:
  assumes "pparser_get_path_part s path = Inr (p, s', path')" "p \<noteq> 0"
  shows "length path' < length path"
proof -
  obtain b buf j path1 where p: "part_loop b 0 path = Inr (buf, j, path1)" "j \<noteq> 0" "path' = skip_slash path1"
    using assms by (auto simp: pparser_get_path_part_def bind_r_eq_Inr_iff Let_def split: if_splits prod.splits)
  with part_loop_path [OF p(1)] show ?thesis by (auto simp: skip_slash_def)
qed

lemma parse_path_part_shorter:
  assumes "parse_path_part s l path = Inr (p, s', path')" "p \<noteq> 0"
  shows "length path' < length path"
proof -
  obtain q s1 where "pparser_get_path_part s path = Inr (q, s1, path')" "q \<noteq> 0"
    using assms by (auto simp: parse_path_part_def bind_r_eq_Inr_iff Let_def split: if_splits prod.splits)
  then show ?thesis by (rule get_path_part_shorter)
qed

function parse_parts_loop :: "'a path_state_scheme \<Rightarrow> u32 \<Rightarrow> u8 list \<Rightarrow> 'a path_state_scheme outcome" where
  "parse_parts_loop s p path =
     bind_r (parse_path_part s p path) (\<lambda>(p, s, path).
       if p = 0 then Inr s else parse_parts_loop s p path)"
  by pat_completeness auto
termination
  by (relation "measure (\<lambda>(s, p, path). length path)") (auto dest: parse_path_part_shorter)

definition pparser_parse :: "'a path_state_scheme \<Rightarrow> u8 list \<Rightarrow> (u32 \<times> 'a path_state_scheme) outcome" where
  "pparser_parse s path =
     bind_r (strlen path) (\<lambda>len.
       if len > int MAX_FILE_PATH_CHARS then Inr (0, s)
       else bind_r (get_drive_by_path path) (\<lambda>(drive, tmp_path).
         if drive < 0 then Inr (0, s)
         else bind_r (pparser_create_root s drive) (\<lambda>(root, s).
           if root = 0 then Inr (0, s)
           else bind_r (parse_path_part s 0 tmp_path) (\<lambda>(first, s, tmp_path).
             if first = 0 then Inr (0, s)
             else bind_r (deref (path_roots s) root) (\<lambda>r.
               let s = s\<lparr>path_roots := (path_roots s)(root \<mapsto> r\<lparr>first_part := first\<rparr>)\<rparr> in
               bind_r (parse_parts_loop s first tmp_path) (\<lambda>s. Inr (root, s)))))))"

declare parse_parts_loop.simps [simp del]

section \<open>Reference: splitting a path\<close>

abbreviation (input) part_char :: "u8 \<Rightarrow> bool" where "part_char c \<equiv> c \<noteq> 47 \<and> c \<noteq> 0"

lemma skip_slash_length: "length (skip_slash xs) \<le> length xs"
  by (auto simp: skip_slash_def)

text \<open>
  The components of the path are the words between the slashes, up to the first empty word, which
  ends the path.
\<close>

definition split_parts :: "u8 list \<Rightarrow> u8 list list" where
  "split_parts path = takeWhile (\<lambda>w. w \<noteq> []) (split_words 47 (cstr path))"

lemma takeWhile_part: "takeWhile (\<lambda>c. c \<noteq> 47) (cstr path) = takeWhile part_char path"
  by (induction path) auto

lemma dropWhile_part:
  "dropWhile (\<lambda>c. c \<noteq> 47) (cstr path) = (case dropWhile part_char path of [] \<Rightarrow> [] | c # r \<Rightarrow> if c = 47 then 47 # cstr r else [])"
  by (induction path) auto

lemma split_parts_rec:
  "split_parts path = (let w = takeWhile part_char path in
     if w = [] then [] else w # split_parts (skip_slash (dropWhile part_char path)))"
proof -
  have sw: "split_words 47 (cstr path) = takeWhile part_char path #
      (case dropWhile part_char path of [] \<Rightarrow> [] | c # r \<Rightarrow> if c = 47 then split_words 47 (cstr r) else [])"
    unfolding split_words.simps [of 47 "cstr path"] takeWhile_part dropWhile_part
    by (cases "dropWhile part_char path") (simp_all del: dropWhile_eq_Nil_conv)
  have "takeWhile (\<lambda>w. w \<noteq> []) (case dropWhile part_char path of [] \<Rightarrow> [] | c # r \<Rightarrow> if c = 47 then split_words 47 (cstr r) else []) =
      split_parts (skip_slash (dropWhile part_char path))"
  proof (cases "dropWhile part_char path")
    case Nil
    then show ?thesis unfolding Nil by (simp add: split_parts_def skip_slash_def split_words_Nil)
  next
    case (Cons c r)
    then have "\<not> part_char c" using hd_dropWhile [of part_char path] by simp
    then show ?thesis unfolding Cons by (auto simp: split_parts_def skip_slash_def split_words_Nil)
  qed
  then show ?thesis by (simp add: split_parts_def sw Let_def)
qed

lemma parts_induct:
  assumes "\<And>path. (\<And>w. w = takeWhile part_char path \<Longrightarrow> w \<noteq> [] \<Longrightarrow> P (skip_slash (dropWhile part_char path))) \<Longrightarrow> P path"
  shows "P path"
proof (induction path rule: measure_induct_rule [of length])
  case (less path)
  have "length (skip_slash (dropWhile part_char path)) < length path" if "takeWhile part_char path \<noteq> []"
  proof -
    have "length path = length (takeWhile part_char path) + length (dropWhile part_char path)"
      by (simp only: takeWhile_dropWhile_id flip: length_append)
    moreover have "0 < length (takeWhile part_char path)" using that length_greater_0_conv by blast
    ultimately show ?thesis using skip_slash_length [of "dropWhile part_char path"] by linarith
  qed
  note len = this
  show ?case
  proof (rule assms)
    fix w assume "w = takeWhile part_char path" "w \<noteq> []"
    then show "P (skip_slash (dropWhile part_char path))" using len by (intro less.IH) blast
  qed
qed

fun parts_at :: "'a path_state_scheme \<Rightarrow> u32 \<Rightarrow> u8 list list \<Rightarrow> bool" where
  "parts_at s p [] \<longleftrightarrow> p = 0"
| "parts_at s p (w # ws) \<longleftrightarrow> p \<noteq> 0 \<and>
     (\<exists>pp buf. path_parts s p = Some pp \<and> char_bufs s (part pp) = Some buf \<and> is_cstr buf \<and> cstr buf = w \<and>
       parts_at s (part_next pp) ws)"

text \<open>A drive: a digit, a colon and a slash.\<close>

definition drive_prefix :: "u8 list \<Rightarrow> bool" where
  "drive_prefix cs \<longleftrightarrow> 3 \<le> length cs \<and> 48 \<le> cs ! 0 \<and> cs ! 0 \<le> 57 \<and> cs ! 1 = 58 \<and> cs ! 2 = 47"

section \<open>The parser builds the split path\<close>

lemma part_loop_result:
  assumes "is_cstr path" "i + length (takeWhile part_char path) \<le> length buf"
  shows "part_loop buf i path = Inr (take i buf @ takeWhile part_char path @ drop (i + length (takeWhile part_char path)) buf,
    i + length (takeWhile part_char path), dropWhile part_char path)"
  using assms
proof (induction buf i path rule: part_loop.induct)
  case (2 buf i c path)
  show ?case
  proof (cases "part_char c")
    case True
    have "i < length buf" using 2(3) True by simp
    then have u: "upd_r buf (int i) c = Inr (buf[i := c])" by (simp add: upd_r_of_nat)
    have "part_loop (buf[i := c]) (Suc i) path =
      Inr (take (Suc i) (buf[i := c]) @ takeWhile part_char path @ drop (Suc i + length (takeWhile part_char path)) (buf[i := c]),
        Suc i + length (takeWhile part_char path), dropWhile part_char path)"
      using 2(2,3) True by (intro 2(1) [OF True u]) auto
    then show ?thesis using True u \<open>i < length buf\<close> by (simp add: take_Suc_conv_app_nth)
  next
    case False
    then show ?thesis by auto
  qed
qed simp

lemma is_cstr_dropWhile: "is_cstr path \<Longrightarrow> is_cstr (dropWhile part_char path)"
  by (induction path) auto

lemma is_cstr_skip: "is_cstr path \<Longrightarrow> is_cstr (skip_slash (dropWhile part_char path))"
proof -
  assume "is_cstr path"
  then have d: "is_cstr (dropWhile part_char path)" by (rule is_cstr_dropWhile)
  then show ?thesis by (cases "dropWhile part_char path") (auto simp: skip_slash_def)
qed

text \<open>
  Objects at addresses that are live in the heap of \<open>s\<close> are unchanged in \<open>s'\<close>, except for the
  path part at \<open>l\<close>.
\<close>

definition keeps :: "u32 \<Rightarrow> 'a path_state_scheme \<Rightarrow> 'a path_state_scheme \<Rightarrow> bool" where
  "keeps l s s' \<longleftrightarrow> heap_ok (kernel_heap s') \<and>
     (\<forall>q. live (kernel_heap s) q \<noteq> None \<longrightarrow> live (kernel_heap s') q = live (kernel_heap s) q \<and>
        path_roots s' q = path_roots s q \<and> char_bufs s' q = char_bufs s q \<and>
        (q \<noteq> l \<longrightarrow> path_parts s' q = path_parts s q))"

lemma get_path_part_none:
  assumes "heap_ok (kernel_heap s)" "0 < free_blocks (kernel_heap s)" "is_cstr path" "takeWhile part_char path = []"
  shows "\<exists>s'. pparser_get_path_part s path = Inr (0, s', skip_slash (dropWhile part_char path)) \<and> keeps l s s' \<and>
    kernel_heap s' = kernel_heap s \<and> path_parts s' = path_parts s"
proof -
  obtain p h m where a: "kzalloc s 128 = Inr (p, s\<lparr>kernel_heap := h, kmem := m\<rparr>)" "fresh_block (kernel_heap s) p h"
    using kzalloc_small [OF assms(1,2), of 128] by auto
  note p = fresh_blockD(1) [OF a(2)]
  have "kfree (s\<lparr>kernel_heap := h, kmem := m\<rparr>) p = Inr (0, s\<lparr>kmem := m\<rparr>)"
    using kzalloc_kfree [OF assms(1) _ a(1) p] by (simp add: request_ok_def)
  then show ?thesis
    using a(1) p part_loop_result [OF assms(3), of 0 "replicate 128 0"] assms(1,4)
    by (simp add: pparser_get_path_part_def keeps_def)
qed

lemma get_path_part_some:
  assumes "heap_ok (kernel_heap s)" "0 < free_blocks (kernel_heap s)" "is_cstr path" "w = takeWhile part_char path"
    "w \<noteq> []" "length w < 128"
  shows "\<exists>b h m. pparser_get_path_part s path =
      Inr (b, s\<lparr>kernel_heap := h, kmem := m, char_bufs := (char_bufs s)(b \<mapsto> w @ replicate (128 - length w) 0)\<rparr>,
        skip_slash (dropWhile part_char path)) \<and> fresh_block (kernel_heap s) b h"
proof -
  obtain p h m where a: "kzalloc s 128 = Inr (p, s\<lparr>kernel_heap := h, kmem := m\<rparr>)" "fresh_block (kernel_heap s) p h"
    using kzalloc_small [OF assms(1,2), of 128] by auto
  then show ?thesis
    using part_loop_result [OF assms(3), of 0 "replicate 128 0"] assms(4-6) fresh_blockD(1) [OF a(2)]
    by (intro exI [of _ p] exI [of _ h] exI [of _ m]) (auto simp: pparser_get_path_part_def)
qed

lemma parse_path_part_some:
  assumes "heap_ok (kernel_heap s)" "2 \<le> free_blocks (kernel_heap s)" "is_cstr path" "w = takeWhile part_char path"
    "w \<noteq> []" "length w < 128" "l \<noteq> 0 \<longrightarrow> path_parts s l = Some pl \<and> live (kernel_heap s) l \<noteq> None"
  shows "\<exists>p b s1. parse_path_part s l path = Inr (p, s1, skip_slash (dropWhile part_char path)) \<and> p \<noteq> 0 \<and>
    live (kernel_heap s) p = None \<and>
    keeps l s s1 \<and> live (kernel_heap s1) p \<noteq> None \<and> live (kernel_heap s1) b \<noteq> None \<and>
    free_blocks (kernel_heap s1) = free_blocks (kernel_heap s) - 2 \<and>
    path_parts s1 p = Some \<lparr>part = b, part_next = 0\<rparr> \<and> char_bufs s1 b = Some (w @ replicate (128 - length w) 0) \<and>
    (l \<noteq> 0 \<longrightarrow> path_parts s1 l = Some (pl\<lparr>part_next := p\<rparr>))"
proof -
  have f: "0 < free_blocks (kernel_heap s)" using assms(2) by simp
  obtain b h m where g: "pparser_get_path_part s path =
      Inr (b, s\<lparr>kernel_heap := h, kmem := m, char_bufs := (char_bufs s)(b \<mapsto> w @ replicate (128 - length w) 0)\<rparr>,
        skip_slash (dropWhile part_char path))" "fresh_block (kernel_heap s) b h"
    using get_path_part_some [OF assms(1) f assms(3-6)] by blast
  note b = fresh_blockD [OF g(2)]
  let ?s1 = "s\<lparr>kernel_heap := h, kmem := m, char_bufs := (char_bufs s)(b \<mapsto> w @ replicate (128 - length w) 0)\<rparr>"
  have h1: "heap_ok (kernel_heap ?s1)" "0 < free_blocks (kernel_heap ?s1)" using b(3,4) assms(2) by simp_all
  obtain p h2 m2 where a: "kzalloc ?s1 8 = Inr (p, ?s1\<lparr>kernel_heap := h2, kmem := m2\<rparr>)" "fresh_block (kernel_heap ?s1) p h2"
    using kzalloc_small [OF h1, of 8] by auto
  have a2: "fresh_block h p h2" using a(2) by simp
  note p = fresh_blockD [OF a2]
  let ?s2 = "?s1\<lparr>kernel_heap := h2, kmem := m2, path_parts := (path_parts s)(p \<mapsto> \<lparr>part = b, part_next = 0\<rparr>)\<rparr>"
  let ?s3 = "if l = 0 then ?s2 else ?s2\<lparr>path_parts := (path_parts ?s2)(l \<mapsto> pl\<lparr>part_next := p\<rparr>)\<rparr>"
  have pb: "p \<noteq> b" using p(5) b(6) by auto
  have pn: "live (kernel_heap s) p = None" using b(7) [OF pb] p(5) by simp
  have "p \<noteq> l" using pn p(1) assms(7) by auto
  note pl = this pb pn
  have "parse_path_part s l path = Inr (p, ?s3, skip_slash (dropWhile part_char path))"
    using g(1) b(1) a(1) p(1) pl(1) assms(7) by (auto simp: parse_path_part_def Let_def)
  moreover have "keeps l s ?s3"
    using p(3,7) b(5,7) pl by (auto simp: keeps_def)
  moreover have "free_blocks (kernel_heap ?s3) = free_blocks (kernel_heap s) - 2" using p(4) b(4) by simp
  moreover have "live (kernel_heap ?s3) p \<noteq> None" "live (kernel_heap ?s3) b \<noteq> None" using p(6) p(7) [of b] b(6) pb by auto
  moreover have "path_parts ?s3 p = Some \<lparr>part = b, part_next = 0\<rparr>" "l \<noteq> 0 \<longrightarrow> path_parts ?s3 l = Some (pl\<lparr>part_next := p\<rparr>)"
    "char_bufs ?s3 b = Some (w @ replicate (128 - length w) 0)" using pl by auto
  ultimately show ?thesis using p(1) pl(3) by blast
qed

lemma parse_path_part_none:
  assumes "heap_ok (kernel_heap s)" "0 < free_blocks (kernel_heap s)" "is_cstr path" "takeWhile part_char path = []"
  shows "\<exists>s'. parse_path_part s l path = Inr (0, s', skip_slash (dropWhile part_char path)) \<and> keeps l s s' \<and>
    kernel_heap s' = kernel_heap s \<and> path_parts s' = path_parts s"
  using get_path_part_none [OF assms, of l] by (auto simp: parse_path_part_def)

lemma keeps_trans:
  assumes "keeps l s s1" "keeps p s1 s2" "live (kernel_heap s) p = None \<or> p = l"
  shows "keeps l s s2"
  using assms unfolding keeps_def by fastforce

lemma cstr_dropWhile_length:
  "length (cstr path) = length (takeWhile part_char path) + length (cstr (dropWhile part_char path))"
  by (induction path) auto

lemma cstr_skip_length: "length (cstr (skip_slash xs)) \<le> length (cstr xs)"
  by (cases xs) (auto simp: skip_slash_def)

lemma split_parts_bound: "w \<in> set (split_parts path) \<Longrightarrow> length w \<le> length (cstr path)"
proof (induction path rule: parts_induct)
  case (1 path)
  let ?w = "takeWhile part_char path" and ?r = "skip_slash (dropWhile part_char path)"
  show ?case
  proof (cases "?w = []")
    case True
    with 1(2) show ?thesis by (subst (asm) split_parts_rec) simp
  next
    case False
    then have "w = ?w \<or> w \<in> set (split_parts ?r)" using 1(2) by (subst (asm) split_parts_rec) (simp add: Let_def)
    then show ?thesis
      using 1(1) [OF refl False] cstr_skip_length [of "dropWhile part_char path"] cstr_dropWhile_length [of path]
      by (elim disjE) auto
  qed
qed

lemma pad_cstr:
  assumes "w = takeWhile part_char path" "length w < 128"
  shows "is_cstr (w @ replicate (128 - length w) 0)" "cstr (w @ replicate (128 - length w) 0) = w"
proof -
  obtain k where k: "128 - length w = Suc k" using assms(2) by (metis Suc_diff_Suc)
  have "0 \<notin> set w" using assms(1) set_takeWhileD by fastforce
  then show "is_cstr (w @ replicate (128 - length w) 0)" "cstr (w @ replicate (128 - length w) 0) = w"
    unfolding k by (simp_all add: is_cstr_def)
qed

text \<open>
  The loop after the first part: the parts of the remaining path are linked behind the part
  at \<open>l\<close>; all objects that were live before are kept, except for the link of \<open>l\<close>.
\<close>

lemma parse_parts_loop_result:
  assumes "heap_ok (kernel_heap s)" "2 * length (split_parts path) < free_blocks (kernel_heap s)" "is_cstr path"
    "\<forall>w \<in> set (split_parts path). length w < 128" "l \<noteq> 0" "path_parts s l = Some pl" "part_next pl = 0"
    "live (kernel_heap s) l \<noteq> None"
  shows "\<exists>s' pl'. parse_parts_loop s l path = Inr s' \<and> keeps l s s' \<and> path_parts s' l = Some pl' \<and>
    part pl' = part pl \<and> parts_at s' (part_next pl') (split_parts path)"
  using assms
proof (induction path arbitrary: s l pl rule: parts_induct)
  case (1 path)
  let ?w = "takeWhile part_char path" and ?r = "skip_slash (dropWhile part_char path)"
  show ?case
  proof (cases "?w = []")
    case True
    have sp: "split_parts path = []" using True by (subst split_parts_rec) simp
    have "0 < free_blocks (kernel_heap s)" using 1(3) by simp
    from parse_path_part_none [OF 1(2) this 1(4) True, of l] 1(7,8) sp show ?thesis
      by (subst parse_parts_loop.simps) auto
  next
    case False
    have sp: "split_parts path = ?w # split_parts ?r" using False by (subst split_parts_rec) (simp add: Let_def)
    have w: "length ?w < 128" "2 \<le> free_blocks (kernel_heap s)" using 1(3,5) sp by auto
    have l: "l \<noteq> 0 \<longrightarrow> path_parts s l = Some pl \<and> live (kernel_heap s) l \<noteq> None" using 1(7,9) by blast
    obtain p b s1 where s1: "parse_path_part s l path = Inr (p, s1, ?r)" "p \<noteq> 0" "live (kernel_heap s) p = None"
      "keeps l s s1" "live (kernel_heap s1) p \<noteq> None" "live (kernel_heap s1) b \<noteq> None"
      "free_blocks (kernel_heap s1) = free_blocks (kernel_heap s) - 2"
      "path_parts s1 p = Some \<lparr>part = b, part_next = 0\<rparr>" "char_bufs s1 b = Some (?w @ replicate (128 - length ?w) 0)"
      "path_parts s1 l = Some (pl\<lparr>part_next := p\<rparr>)"
      using parse_path_part_some [OF 1(2) w(2) 1(4) refl False w(1) l] 1(6) by blast
    have "heap_ok (kernel_heap s1)" "2 * length (split_parts ?r) < free_blocks (kernel_heap s1)"
      using s1(4,7) 1(3) sp by (auto simp: keeps_def)
    from 1(1) [OF refl False this is_cstr_skip [OF 1(4)] _ s1(2,8) _ s1(5)] 1(5) sp
    obtain s' pp where s': "parse_parts_loop s1 p ?r = Inr s'" "keeps p s1 s'" "path_parts s' p = Some pp"
      "part pp = b" "parts_at s' (part_next pp) (split_parts ?r)" by auto
    have ne: "l \<noteq> p" using s1(3) 1(9) by auto
    have lv: "live (kernel_heap s1) l \<noteq> None" using s1(4) 1(9) by (auto simp: keeps_def)
    have "path_parts s' l = Some (pl\<lparr>part_next := p\<rparr>)" using s'(2) ne lv s1(10) by (auto simp: keeps_def)
    moreover have "char_bufs s' b = Some (?w @ replicate (128 - length ?w) 0)"
      using s'(2) s1(6,9) by (auto simp: keeps_def)
    moreover have "keeps l s s'" using keeps_trans [OF s1(4) s'(2)] s1(3) by blast
    moreover have "parse_parts_loop s l path = Inr s'" using s1(1,2) s'(1) by (subst parse_parts_loop.simps) simp
    ultimately show ?thesis
      using s1(2) s'(3-5) pad_cstr [OF refl w(1)] sp by auto
  qed
qed

lemma get_drive_by_path_eq:
  assumes "is_cstr path"
  shows "get_drive_by_path path = Inr (if drive_prefix (cstr path) then (uint (path ! 0) - 48, drop 3 path) else (- EBADPATH, path))"
proof -
  have sl: "strnlen path 128 = Inr (int (min 128 (length (cstr path))))" using assms by (intro strnlen_eq) simp
  show ?thesis
  proof (cases "length (cstr path) \<le> 2")
    case True
    then show ?thesis using sl by (simp add: get_drive_by_path_def path_valid_form_def drive_prefix_def)
  next
    case False
    then obtain a b c r where p: "path = a # b # c # r" "a \<noteq> 0" "b \<noteq> 0" "c \<noteq> 0"
      by (cases path; cases "tl path"; cases "tl (tl path)") (auto split: if_splits)
    have n2: "(2 :: nat) = Suc (Suc 0)" by simp
    have "\<exists>r'. memcmp (b # c # r) [58, 47, 0] 2 = Inr r' \<and> (r' = 0 \<longleftrightarrow> b = 58 \<and> c = 47)"
      unfolding n2 by simp
    then obtain r' where "memcmp (b # c # r) [58, 47, 0] 2 = Inr r'" "r' = 0 \<longleftrightarrow> b = 58 \<and> c = 47" by blast
    then show ?thesis using sl p False
      by - (cases "b = 58 \<and> c = 47", simp, cases "48 \<le> a \<and> a \<le> 57", auto simp: get_drive_by_path_def path_valid_form_def drive_prefix_def is_digit_iff ctoi_def sint_digit)
  qed
qed

lemma get_drive_by_path_valid:
  assumes "48 \<le> d" "d \<le> 57" "is_cstr rest"
  shows "get_drive_by_path (d # 58 # 47 # rest) = Inr (uint d - 48, rest)" "d \<noteq> 0" "0 \<le> uint d - 48"
proof -
  show d: "d \<noteq> 0" "0 \<le> uint d - 48" using assms(1) by (auto simp: word_le_def)
  then show "get_drive_by_path (d # 58 # 47 # rest) = Inr (uint d - 48, rest)"
    using get_drive_by_path_eq [of "d # 58 # 47 # rest"] assms by (simp add: drive_prefix_def)
qed

lemma pparser_parse_result:
  assumes "heap_ok (kernel_heap s)" "2 * length (split_parts rest) + 2 \<le> free_blocks (kernel_heap s)" "48 \<le> d" "d \<le> 57"
    "is_cstr rest" "length (cstr rest) \<le> 125"
  shows "if split_parts rest = [] then \<exists>s'. pparser_parse s (d # 58 # 47 # rest) = Inr (0, s')
    else \<exists>root s' r. pparser_parse s (d # 58 # 47 # rest) = Inr (root, s') \<and> root \<noteq> 0 \<and> path_roots s' root = Some r \<and>
      drive_no r = uint d - 48 \<and> parts_at s' (first_part r) (split_parts rest) \<and> heap_ok (kernel_heap s')"
proof -
  note drv = get_drive_by_path_valid [OF assms(3-5)]
  have len: "strlen (d # 58 # 47 # rest) = Inr (int (length (cstr rest) + 3))"
    using drv(2) assms(5) by (simp add: strlen_eq)
  have f: "0 < free_blocks (kernel_heap s)" using assms(2) by simp
  obtain root h m where a: "kzalloc s 8 = Inr (root, s\<lparr>kernel_heap := h, kmem := m\<rparr>)" "fresh_block (kernel_heap s) root h"
    using kzalloc_small [OF assms(1) f, of 8] by auto
  note rt = fresh_blockD [OF a(2)]
  define s1 where "s1 = s\<lparr>kernel_heap := h, kmem := m,
    path_roots := (path_roots s)(root \<mapsto> \<lparr>drive_no = uint d - 48, first_part = 0\<rparr>)\<rparr>"
  have cr: "pparser_create_root s (uint d - 48) = Inr (root, s1)"
    using a(1) rt(1) by (simp add: pparser_create_root_def s1_def)
  have h1: "heap_ok (kernel_heap s1)" "free_blocks (kernel_heap s1) = free_blocks (kernel_heap s) - 1"
    "live (kernel_heap s1) root \<noteq> None" using rt(3,4,6) by (simp_all add: s1_def)
  have start: "pparser_parse s (d # 58 # 47 # rest) = bind_r (parse_path_part s1 0 rest) (\<lambda>(first, s, tmp_path).
             if first = 0 then Inr (0, s)
             else bind_r (deref (path_roots s) root) (\<lambda>r.
               let s = s\<lparr>path_roots := (path_roots s)(root \<mapsto> r\<lparr>first_part := first\<rparr>)\<rparr> in
               bind_r (parse_parts_loop s first tmp_path) (\<lambda>s. Inr (root, s))))"
    unfolding pparser_parse_def len drv(1) using drv(3) rt(1) assms(6) cr by simp
  let ?w = "takeWhile part_char rest" and ?r = "skip_slash (dropWhile part_char rest)"
  show ?thesis
  proof (cases "?w = []")
    case True
    then have "split_parts rest = []" by (subst split_parts_rec) simp
    moreover have "0 < free_blocks (kernel_heap s1)" using h1(2) assms(2) by linarith
    from parse_path_part_none [OF h1(1) this assms(5) True, of 0]
    have "\<exists>s'. pparser_parse s (d # 58 # 47 # rest) = Inr (0, s')" by (auto simp: start)
    ultimately show ?thesis by simp
  next
    case False
    have sp: "split_parts rest = ?w # split_parts ?r" using False by (subst split_parts_rec) (simp add: Let_def)
    have wl: "\<forall>w \<in> set (split_parts rest). length w < 128" using split_parts_bound [of _ rest] assms(6) by fastforce
    have w: "length ?w < 128" "2 \<le> free_blocks (kernel_heap s1)" using wl sp h1(2) assms(2) by auto
    obtain p b s2 where s2: "parse_path_part s1 0 rest = Inr (p, s2, ?r)" "p \<noteq> 0" "live (kernel_heap s1) p = None"
      "keeps 0 s1 s2" "live (kernel_heap s2) p \<noteq> None" "live (kernel_heap s2) b \<noteq> None"
      "free_blocks (kernel_heap s2) = free_blocks (kernel_heap s1) - 2"
      "path_parts s2 p = Some \<lparr>part = b, part_next = 0\<rparr>" "char_bufs s2 b = Some (?w @ replicate (128 - length ?w) 0)"
      using parse_path_part_some [OF h1(1) w(2) assms(5) refl False w(1), of 0] by auto
    have root2: "path_roots s2 root = Some \<lparr>drive_no = uint d - 48, first_part = 0\<rparr>" "live (kernel_heap s2) root \<noteq> None"
      using s2(4) h1(3) by (auto simp: keeps_def s1_def)
    let ?s3 = "s2\<lparr>path_roots := (path_roots s2)(root \<mapsto> \<lparr>drive_no = uint d - 48, first_part = p\<rparr>)\<rparr>"
    have "heap_ok (kernel_heap ?s3)" "2 * length (split_parts ?r) < free_blocks (kernel_heap ?s3)"
      using s2(4,7) h1(2) assms(2) sp by (auto simp: keeps_def)
    from parse_parts_loop_result [OF this is_cstr_skip [OF assms(5)] _ s2(2), of "\<lparr>part = b, part_next = 0\<rparr>"] wl sp s2(5,8)
    obtain s' pp where s': "parse_parts_loop ?s3 p ?r = Inr s'" "keeps p ?s3 s'" "path_parts s' p = Some pp"
      "part pp = b" "parts_at s' (part_next pp) (split_parts ?r)" by auto
    have "pparser_parse s (d # 58 # 47 # rest) = Inr (root, s')" using s2(1,2) root2(1) s'(1) by (simp add: start)
    moreover have "path_roots s' root = Some \<lparr>drive_no = uint d - 48, first_part = p\<rparr>" "heap_ok (kernel_heap s')"
      "char_bufs s' b = Some (?w @ replicate (128 - length ?w) 0)"
      using s'(2) root2(2) s2(6,9) by (auto simp: keeps_def)
    moreover have "parts_at s' p (split_parts rest)"
      using sp s2(2) s'(3-5) calculation(4) pad_cstr [OF refl w(1)] by auto
    ultimately show ?thesis using rt(1) sp by auto
  qed
qed

section \<open>Properties\<close>

text \<open>
  C18. Parsing: for a path made of a drive digit, \<open>:/\<close> and at most 125 more characters, on a heap
  with two free blocks per component and two more, \<open>pparser_parse\<close> returns a root with the drive
  number and a linked list that holds exactly the components of the path, in order, as
  null-terminated strings; it returns NULL exactly when there is no component. A component
  list ends at the first empty component, so \<open>a//b\<close> parses as \<open>a\<close>.
\<close>

theorem pparser_parse_splits:
  assumes "heap_ok (kernel_heap s)" "2 * length (split_parts rest) + 2 \<le> free_blocks (kernel_heap s)" "48 \<le> d" "d \<le> 57"
    "is_cstr rest" "length (cstr rest) \<le> 125"
  shows "if split_parts rest = [] then \<exists>s'. pparser_parse s (d # 58 # 47 # rest) = Inr (0, s')
    else \<exists>root s' r. pparser_parse s (d # 58 # 47 # rest) = Inr (root, s') \<and> root \<noteq> 0 \<and> path_roots s' root = Some r \<and>
      drive_no r = uint d - 48 \<and> parts_at s' (first_part r) (split_parts rest) \<and> heap_ok (kernel_heap s')"
  by (rule pparser_parse_result [OF assms])

definition demo_path_state :: path_state where
  "demo_path_state = \<lparr>kernel_heap = \<lparr>table = \<lparr>entries = replicate 16 0, total_entries = 16\<rparr>, start_addr = 0x01000000\<rparr>,
     kmem = (\<lambda>_. 0), current_pgd = 0, cr3 = 0, io_trace = [],
     disk_dev = \<lparr>dtype = REAL, disk_id = 0, sector_size = 512, filesystem = NoFilesystem, fs_private = 0\<rparr>,
     streams = Map.empty, path_roots = Map.empty, path_parts = Map.empty, char_bufs = Map.empty\<rparr>"

lemma demo_path_state_ok: "heap_ok (kernel_heap demo_path_state)" "free_blocks (kernel_heap demo_path_state) = 16"
  by (simp_all add: demo_path_state_def heap_ok_def table_ok_def free_blocks_def)

lemma split_demo: "split_parts [98, 47, 115, 104, 0] = [[98], [115, 104]]"
  by (simp add: split_parts_def split_words.simps)

theorem pparser_parse_splits_witness:
  "\<exists>root s' r. pparser_parse demo_path_state [48, 58, 47, 98, 47, 115, 104, 0] = Inr (root, s') \<and>
     path_roots s' root = Some r \<and> drive_no r = 0 \<and> parts_at s' (first_part r) [[98], [115, 104]]"
  using pparser_parse_splits [OF demo_path_state_ok(1), of "[98, 47, 115, 104, 0]" 48] demo_path_state_ok(2)
  by (auto simp: split_demo)

text \<open>
  C19. The drive: a string that starts with a digit, a colon and a slash gives the number and is
  moved behind them; any other string gives \<open>-EBADPATH\<close> and stays. \<open>pparser_parse\<close> returns NULL without
  allocating for a string without a drive and for one of more than 128 characters.
\<close>

theorem pparser_parse_bad_form:
  assumes "is_cstr path"
  shows "get_drive_by_path path = Inr (if drive_prefix (cstr path) then (uint (path ! 0) - 48, drop 3 path) else (- EBADPATH, path)) \<and>
    (\<not> drive_prefix (cstr path) \<or> 128 < length (cstr path) \<longrightarrow> pparser_parse s path = Inr (0, s))"
  using get_drive_by_path_eq [OF assms] assms by (auto simp: pparser_parse_def strlen_eq)

theorem pparser_parse_bad_form_witness:
  "pparser_parse demo_path_state [98, 105, 110, 47, 0] = Inr (0, demo_path_state) \<and>
    get_drive_by_path [49, 58, 47, 97, 0] = Inr (1, [97, 0])"
  using pparser_parse_bad_form [of "[98, 105, 110, 47, 0]" demo_path_state] pparser_parse_bad_form [of "[49, 58, 47, 97, 0]"]
  by (simp add: drive_prefix_def)

end
