(* ===== verification/Fat16.thy ===== *)
theory Fat16
  imports PathParser
begin

text \<open>
  The FAT16 driver \<^verbatim>\<open>src/src/fs/fat/fat16.c\<close>. On-disk structures are read as bytes and decoded; a
  pointer to a raw directory entry is the suffix of the entry array that starts with the entry,
  because the code walks past the ends of the name fields. Heap objects of the driver are in
  typed stores.
\<close>

section \<open>On-disk structures\<close>

definition le16 :: "u8 list \<Rightarrow> nat \<Rightarrow> u16" where
  "le16 bs i = ucast (bs ! i) OR push_bit 8 (ucast (bs ! (i + 1)))"

definition le32 :: "u8 list \<Rightarrow> nat \<Rightarrow> u32" where
  "le32 bs i = ucast (bs ! i) OR push_bit 8 (ucast (bs ! (i + 1))) OR push_bit 16 (ucast (bs ! (i + 2)))
     OR push_bit 24 (ucast (bs ! (i + 3)))"

record fat_header_extended =
  drive_number :: u8
  win_nt_bit :: u8
  extended_boot_signature :: u8
  volume_id :: u32
  volume_id_string :: "u8 list"
  system_id_string :: "u8 list"

record fat_header_primary =
  short_jmp_ins :: "u8 list"
  oem_id :: "u8 list"
  bytes_per_sector :: u16
  sectors_per_cluster :: u8
  reserved_sectors :: u16
  fat_copies :: u8
  root_dir_entries :: u16
  number_of_sectors :: u16
  media_type :: u8
  sectors_per_fat :: u16
  sectors_per_track :: u16
  number_of_heads :: u16
  hidden_sectors :: u32
  sectors_big :: u32

record fat_header =
  header_primary :: fat_header_primary
  header_extended :: fat_header_extended

definition decode_header_primary :: "u8 list \<Rightarrow> fat_header_primary" where
  "decode_header_primary bs = \<lparr>short_jmp_ins = take 3 bs, oem_id = take 8 (drop 3 bs),
     bytes_per_sector = le16 bs 11, sectors_per_cluster = bs ! 13, reserved_sectors = le16 bs 14,
     fat_copies = bs ! 16, root_dir_entries = le16 bs 17, number_of_sectors = le16 bs 19,
     media_type = bs ! 21, sectors_per_fat = le16 bs 22, sectors_per_track = le16 bs 24,
     number_of_heads = le16 bs 26, hidden_sectors = le32 bs 28, sectors_big = le32 bs 32\<rparr>"

definition decode_header_extended :: "u8 list \<Rightarrow> fat_header_extended" where
  "decode_header_extended bs = \<lparr>drive_number = bs ! 36, win_nt_bit = bs ! 37, extended_boot_signature = bs ! 38,
     volume_id = le32 bs 39, volume_id_string = take 11 (drop 43 bs), system_id_string = take 8 (drop 54 bs)\<rparr>"

definition decode_header :: "u8 list \<Rightarrow> fat_header" where
  "decode_header bs = \<lparr>header_primary = decode_header_primary bs, header_extended = decode_header_extended bs\<rparr>"

record fat_directory_entry =
  filename :: "u8 list"
  ext :: "u8 list"
  attribute :: u8
  reserved :: u8
  creation_time_millisecond :: u8
  creation_time :: u16
  creation_date :: u16
  last_access :: u16
  high_16_bits_first_cluster :: u16
  last_mod_time :: u16
  last_mod_date :: u16
  low_16_bits_first_cluster :: u16
  filesize :: u32

text \<open>Access through a pointer to a raw entry; the 32 bytes must be inside the array.\<close>

definition raw_dir_entry :: "u8 list \<Rightarrow> fat_directory_entry outcome" where
  "raw_dir_entry bs = (if length bs < 32 then Inl OutOfBounds else
     Inr \<lparr>filename = take 8 bs, ext = take 3 (drop 8 bs), attribute = bs ! 11, reserved = bs ! 12,
       creation_time_millisecond = bs ! 13, creation_time = le16 bs 14, creation_date = le16 bs 16,
       last_access = le16 bs 18, high_16_bits_first_cluster = le16 bs 20, last_mod_time = le16 bs 22,
       last_mod_date = le16 bs 24, low_16_bits_first_cluster = le16 bs 26, filesize = le32 bs 28\<rparr>)"

section \<open>Structures of the driver\<close>

datatype fat_dir_entry_type = FAT_ITEM_TYPE_DIRECTORY | FAT_ITEM_TYPE_FILE

record fat_directory =
  dir_entry :: u32
  dir_total :: int
  dir_sector :: int
  dir_end_sector :: int

text \<open>\<open>easy_ptr\<close> is the union of the two pointers.\<close>

record fat_easy_directory_entry =
  easy_ptr :: u32
  easy_type :: fat_dir_entry_type

record fat_file_descriptor =
  easy_directory_entry :: u32
  file_pos :: u32

record fat_private =
  header :: fat_header
  root_directory :: fat_directory
  cluster_read_stream :: u32
  fat_read_stream :: u32
  directory_stream :: u32

record fat_state = path_state +
  fat_privates :: "u32 \<rightharpoonup> fat_private"
  dir_entry_bufs :: "u32 \<rightharpoonup> u8 list"
  fat_dirs :: "u32 \<rightharpoonup> fat_directory"
  easy_entries :: "u32 \<rightharpoonup> fat_easy_directory_entry"
  fat_files :: "u32 \<rightharpoonup> fat_file_descriptor"

abbreviation (input) FAT16_BAD_SECTOR :: int where "FAT16_BAD_SECTOR \<equiv> 0xFFF7"
abbreviation (input) FAT16_FAT_ENTRY_SIZE :: int where "FAT16_FAT_ENTRY_SIZE \<equiv> 2"
abbreviation (input) FAT_FILE_READ_ONLY :: u8 where "FAT_FILE_READ_ONLY \<equiv> 0x01"
abbreviation (input) FAT_FILE_SUBDIRECTORY :: u8 where "FAT_FILE_SUBDIRECTORY \<equiv> 0x10"

datatype file_seek_mode = SEEK_SET | SEEK_CUR | SEEK_END

datatype file_mode = READ | WRITE | APPEND | INVALID

record file_stat =
  stat_flags :: u32
  stat_filesize :: u32

section \<open>Mounting\<close>

definition zero_header :: fat_header where
  "zero_header = decode_header (replicate 62 0)"

definition fat16_init_private :: "'a fat_state_scheme \<Rightarrow> u32 \<Rightarrow> 'a fat_state_scheme outcome" where
  "fat16_init_private s fp =
     (if fp = 0 then Inl NullDeref
      else bind_r (get_disk_stream s (disk_id (disk_dev s))) (\<lambda>(c, s).
        bind_r (get_disk_stream s (disk_id (disk_dev s))) (\<lambda>(f, s).
          bind_r (get_disk_stream s (disk_id (disk_dev s))) (\<lambda>(d, s).
            Inr (s\<lparr>fat_privates := (fat_privates s)(fp \<mapsto>
              \<lparr>header = zero_header,
               root_directory = \<lparr>dir_entry = 0, dir_total = 0, dir_sector = 0, dir_end_sector = 0\<rparr>,
               cluster_read_stream = c, fat_read_stream = f, directory_stream = d\<rparr>)\<rparr>)))))"

definition get_private :: "'a fat_state_scheme \<Rightarrow> fat_private outcome" where
  "get_private s = deref (fat_privates s) (fs_private (disk_dev s))"

definition fat16_sector_to_absolute_pos :: "disk \<Rightarrow> int \<Rightarrow> int" where
  "fat16_sector_to_absolute_pos dsk sector = sector * sector_size dsk"

text \<open>
  The loop reads 32-byte entries until one starts with a null byte. It has no other bound; after
  \<open>2 ^ 26\<close> entries the position of the stream would pass \<^verbatim>\<open>INT_MAX\<close>, so that is the fuel.
\<close>

function total_items_loop :: "device \<Rightarrow> 'a fat_state_scheme \<Rightarrow> u32 \<Rightarrow> u8 list \<Rightarrow> int \<Rightarrow> nat \<Rightarrow>
    (int \<times> 'a fat_state_scheme) outcome" where
  "total_items_loop dev s stream entry count fuel =
     (if fuel = 0 then Inl Diverge
      else bind_r (disk_stream_read dev s stream entry 0 32) (\<lambda>(rc, entry, s).
        if rc < 0 then Inr (rc, s)
        else bind_r (nth_r entry 0) (\<lambda>c.
          if c = 0x00 then Inr (count, s)
          else if c = 0xE5 then total_items_loop dev s stream entry count (fuel - 1)
          else total_items_loop dev s stream entry (count + 1) (fuel - 1))))"
  by pat_completeness auto
termination
  by (relation "measure (\<lambda>(dev, s, st, e, c, fuel). fuel)") auto

declare total_items_loop.simps [simp del]

definition fat16_get_total_items_for_directory :: "device \<Rightarrow> 'a fat_state_scheme \<Rightarrow> u32 \<Rightarrow>
    (int \<times> 'a fat_state_scheme) outcome" where
  "fat16_get_total_items_for_directory dev s directory_start_sector =
     (let directory_start_pos = fat16_sector_to_absolute_pos (disk_dev s) (sint directory_start_sector) in
      bind_r (get_private s) (\<lambda>fp.
        bind_r (disk_stream_seek s (directory_stream fp) directory_start_pos) (\<lambda>(rc, s).
          if rc < 0 then Inr (rc, s)
          else total_items_loop dev s (directory_stream fp) (replicate 32 0) 0 (2 ^ 26))))"

definition fat16_get_root_directory :: "device \<Rightarrow> 'a fat_state_scheme \<Rightarrow> u32 \<Rightarrow> (int \<times> 'a fat_state_scheme) outcome" where
  "fat16_get_root_directory dev s fat_private_ptr =
     bind_r (deref (fat_privates s) fat_private_ptr) (\<lambda>fp.
       let ph = header_primary (header fp);
           root_dir_sector = uint (fat_copies ph) * uint (sectors_per_fat ph) + uint (reserved_sectors ph);
           root_dir_size = uint (root_dir_entries ph) * 32 in
       if sector_size (disk_dev s) = 0 then Inl DivideError
       else bind_r (fat16_get_total_items_for_directory dev s (of_int root_dir_sector)) (\<lambda>(root_dir_total_items, s).
         bind_r (kzalloc s (of_int root_dir_size)) (\<lambda>(root_dir, s).
           if root_dir = 0 then Inr (- ENOMEM, s)
           else bind_r (disk_stream_seek s (directory_stream fp)
                  (fat16_sector_to_absolute_pos (disk_dev s) root_dir_sector)) (\<lambda>(rc, s).
             if rc < 0 then Inr (rc, s)
             else bind_r (disk_stream_read dev s (directory_stream fp) (replicate (nat root_dir_size) 0) 0 root_dir_size)
               (\<lambda>(rc, buf, s).
               let s = s\<lparr>dir_entry_bufs := (dir_entry_bufs s)(root_dir \<mapsto> buf)\<rparr> in
               if rc < 0 then Inr (rc, s)
               else bind_r (deref (fat_privates s) fat_private_ptr) (\<lambda>fp.
                 Inr (0, s\<lparr>fat_privates := (fat_privates s)(fat_private_ptr \<mapsto> fp\<lparr>root_directory :=
                   \<lparr>dir_entry = root_dir, dir_total = root_dir_total_items, dir_sector = root_dir_sector,
                    dir_end_sector = root_dir_sector + root_dir_size sdiv sector_size (disk_dev s)\<rparr>\<rparr>)\<rparr>)))))))"

definition set_fs_private :: "'a fat_state_scheme \<Rightarrow> u32 \<Rightarrow> 'a fat_state_scheme" where
  "set_fs_private s p = s\<lparr>disk_dev := (disk_dev s)\<lparr>fs_private := p\<rparr>\<rparr>"

text \<open>The part of \<^verbatim>\<open>fat16_resolve\<close> between the allocation of the stream and the label \<^verbatim>\<open>out\<close>.\<close>

definition resolve_body :: "device \<Rightarrow> 'a fat_state_scheme \<Rightarrow> u32 \<Rightarrow> u32 \<Rightarrow> (int \<times> 'a fat_state_scheme) outcome" where
  "resolve_body dev s fp stream =
     (if stream = 0 then Inr (- ENOMEM, s)
      else bind_r (disk_stream_read dev s stream (replicate 62 0) 0 62) (\<lambda>(rc, bs, s).
        bind_r (deref (fat_privates s) fp) (\<lambda>priv.
          let s = s\<lparr>fat_privates := (fat_privates s)(fp \<mapsto> priv\<lparr>header := decode_header bs\<rparr>)\<rparr> in
          if rc < 0 then Inr (rc, s)
          else if extended_boot_signature (header_extended (decode_header bs)) \<noteq> 0x29 then Inr (- EFSNOTUS, s)
          else bind_r (fat16_get_root_directory dev s fp) (\<lambda>(rc, s).
            if rc < 0 then Inr (rc, s)
            else Inr (rc, s\<lparr>disk_dev := (disk_dev s)\<lparr>filesystem := Fat16Filesystem\<rparr>\<rparr>)))))"

definition fat16_resolve :: "device \<Rightarrow> 'a fat_state_scheme \<Rightarrow> (int \<times> 'a fat_state_scheme) outcome" where
  "fat16_resolve dev s =
     bind_r (kzalloc s 92) (\<lambda>(fp, s).
       bind_r (fat16_init_private s fp) (\<lambda>s.
         let s = set_fs_private s fp in
         bind_r (get_disk_stream s (disk_id (disk_dev s))) (\<lambda>(stream, s).
           bind_r (resolve_body dev s fp stream) (\<lambda>(rc, s).
             bind_r (if stream \<noteq> 0 then disk_stream_close s stream else Inr s) (\<lambda>s.
               if rc < 0
               then bind_r (kfree s fp) (\<lambda>(_, s).
                 Inr (rc, set_fs_private (s\<lparr>fat_privates := (fat_privates s)(fp := None)\<rparr>) 0))
               else Inr (rc, s))))))"

section \<open>Names and clusters\<close>

fun convert_loop :: "u8 list \<Rightarrow> nat \<Rightarrow> u8 list \<Rightarrow> (u8 list \<times> nat \<times> u8) outcome" where
  "convert_loop out oi [] = Inl OutOfBounds"
| "convert_loop out oi (c # cs) =
     (if c \<noteq> 0x00 \<and> c \<noteq> 0x20
      then bind_r (upd_r out (int oi) c) (\<lambda>out. convert_loop out (Suc oi) cs)
      else Inr (out, oi, c))"

definition fat16_convert_spaces_to_null :: "u8 list \<Rightarrow> nat \<Rightarrow> u8 list \<Rightarrow> (u8 list \<times> nat) outcome" where
  "fat16_convert_spaces_to_null out oi src =
     bind_r (convert_loop out oi src) (\<lambda>(out, oi, c).
       if c = 0x20 then bind_r (upd_r out (int oi) 0) (\<lambda>out. Inr (out, oi)) else Inr (out, oi))"

definition fat16_get_filename :: "u8 list \<Rightarrow> u8 list \<Rightarrow> nat \<Rightarrow> u8 list outcome" where
  "fat16_get_filename raw out maxlen =
     bind_r (memset out 0 maxlen) (\<lambda>out.
       bind_r (fat16_convert_spaces_to_null out 0 raw) (\<lambda>(out, oi).
         bind_r (nth_r raw 8) (\<lambda>e.
           if e \<noteq> 0x00 \<and> e \<noteq> 0x20
           then bind_r (upd_r out (int oi) 46) (\<lambda>out.
             bind_r (fat16_convert_spaces_to_null out (Suc oi) (drop 8 raw)) (\<lambda>(out, oi). Inr out))
           else Inr out)))"

definition fat16_clone_raw_dir_entry :: "'a fat_state_scheme \<Rightarrow> u8 list \<Rightarrow> nat \<Rightarrow> (u32 \<times> 'a fat_state_scheme) outcome" where
  "fat16_clone_raw_dir_entry s raw n =
     (if n < 32 then Inr (0, s)
      else bind_r (kzalloc s (of_nat n)) (\<lambda>(entry_copy, s).
        if entry_copy = 0 then Inr (0, s)
        else bind_r (memcpy (replicate n 0) raw n) (\<lambda>bs.
          Inr (entry_copy, s\<lparr>dir_entry_bufs := (dir_entry_bufs s)(entry_copy \<mapsto> bs)\<rparr>))))"

definition fat16_cluster_to_start_sector :: "fat_private \<Rightarrow> int \<Rightarrow> int" where
  "fat16_cluster_to_start_sector fp cluster =
     dir_end_sector (root_directory fp) + (cluster - 2) * uint (sectors_per_cluster (header_primary (header fp)))"

definition fat16_get_first_cluster :: "fat_directory_entry \<Rightarrow> u32" where
  "fat16_get_first_cluster raw_entry =
     ucast (low_16_bits_first_cluster raw_entry) OR ucast (high_16_bits_first_cluster raw_entry)"

definition fat16_get_first_fat_sector :: "fat_private \<Rightarrow> u32" where
  "fat16_get_first_fat_sector fp = ucast (reserved_sectors (header_primary (header fp)))"

text \<open>The value returned is the return code of \<open>disk_stream_read\<close>, which is assigned to \<^verbatim>\<open>entry\<close>.\<close>

definition fat16_get_fat_entry :: "device \<Rightarrow> 'a fat_state_scheme \<Rightarrow> int \<Rightarrow> (u16 \<times> 'a fat_state_scheme) outcome" where
  "fat16_get_fat_entry dev s cluster =
     bind_r (get_private s) (\<lambda>fp.
       let fat_table_position_bytes = fat16_get_first_fat_sector fp * of_int (sector_size (disk_dev s)) in
       bind_r (disk_stream_seek s (fat_read_stream fp)
           (sint (fat_table_position_bytes + of_int (cluster * FAT16_FAT_ENTRY_SIZE)))) (\<lambda>(rc, s).
         if rc < 0 then Inr (of_int rc, s)
         else bind_r (disk_stream_read dev s (fat_read_stream fp) [0, 0] 0 FAT16_FAT_ENTRY_SIZE) (\<lambda>(entry, out, s).
           Inr (of_int entry, s))))"

function chain_loop :: "device \<Rightarrow> 'a fat_state_scheme \<Rightarrow> int \<Rightarrow> int \<Rightarrow> int \<Rightarrow> (int \<times> 'a fat_state_scheme) outcome" where
  "chain_loop dev s cluster clusters_ahead i =
     (if i < clusters_ahead
      then bind_r (fat16_get_fat_entry dev s cluster) (\<lambda>(e, s).
        let entry = uint e in
        if entry \<ge> 0xFFF8 \<and> entry \<le> 0xFFFF then Inr (- EIO, s)
        else if entry = FAT16_BAD_SECTOR then Inr (- EIO, s)
        else if entry \<ge> 0xFFF0 \<and> entry \<le> 0xFFF6 then Inr (- EIO, s)
        else if entry = 0 then Inr (- EIO, s)
        else chain_loop dev s entry clusters_ahead (i + 1))
      else Inr (cluster, s))"
  by pat_completeness auto
termination
  by (relation "measure (\<lambda>(dev, s, c, n, i). nat (n - i))") auto

declare chain_loop.simps [simp del]

definition cluster_size_bytes :: "'a fat_state_scheme \<Rightarrow> fat_private \<Rightarrow> int" where
  "cluster_size_bytes s fp = uint (sectors_per_cluster (header_primary (header fp))) * sector_size (disk_dev s)"

definition fat16_get_cluster_in_chain :: "device \<Rightarrow> 'a fat_state_scheme \<Rightarrow> int \<Rightarrow> int \<Rightarrow> (int \<times> 'a fat_state_scheme) outcome" where
  "fat16_get_cluster_in_chain dev s chain_start_cluster offset =
     bind_r (get_private s) (\<lambda>fp.
       if cluster_size_bytes s fp = 0 then Inl DivideError
       else chain_loop dev s chain_start_cluster (offset sdiv cluster_size_bytes s fp) 0)"

text \<open>
  \<^verbatim>\<open>sector_size\<close> is only ever 512, so that the cluster size is not negative; a cluster size of zero
  is a division by zero.
\<close>

function fat16_read_internal :: "device \<Rightarrow> 'a fat_state_scheme \<Rightarrow> int \<Rightarrow> int \<Rightarrow> int \<Rightarrow> u8 list \<Rightarrow> nat \<Rightarrow>
    (int \<times> u8 list \<times> 'a fat_state_scheme) outcome" where
  "fat16_read_internal dev s chain_start_cluster offset n out oi =
     bind_r (get_private s) (\<lambda>fp.
       let cs = cluster_size_bytes s fp in
       if cs \<le> 0 then Inl DivideError
       else bind_r (fat16_get_cluster_in_chain dev s chain_start_cluster offset) (\<lambda>(start_cluster, s).
         if start_cluster < 0 then Inr (start_cluster, out, s)
         else
           let offset_from_cluster = offset smod cs;
               start_sector = fat16_cluster_to_start_sector fp start_cluster;
               start_pos_bytes = start_sector * sector_size (disk_dev s) + offset_from_cluster;
               bytes_to_read = (if n > cs then cs else n) in
           bind_r (disk_stream_seek s (cluster_read_stream fp) start_pos_bytes) (\<lambda>(rc, s).
             if rc < 0 then Inr (rc, out, s)
             else bind_r (disk_stream_read dev s (cluster_read_stream fp) out oi bytes_to_read) (\<lambda>(rc, out, s).
               if rc < 0 then Inr (rc, out, s)
               else if n - bytes_to_read > 0
               then fat16_read_internal dev s chain_start_cluster (offset + bytes_to_read) (n - bytes_to_read)
                      out (oi + nat bytes_to_read)
               else Inr (rc, out, s)))))"
  by pat_completeness auto
termination
  by (relation "measure (\<lambda>(dev, s, c, off, n, out, oi). nat n)") (auto split: if_splits)

declare fat16_read_internal.simps [simp del]

section \<open>Directories\<close>

definition fat16_free_directory :: "'a fat_state_scheme \<Rightarrow> u32 \<Rightarrow> 'a fat_state_scheme outcome" where
  "fat16_free_directory s directory =
     (if directory = 0 then Inr s
      else bind_r (deref (fat_dirs s) directory) (\<lambda>d.
        bind_r (if dir_entry d \<noteq> 0
                then bind_r (kfree s (dir_entry d)) (\<lambda>(_, s).
                  Inr (s\<lparr>dir_entry_bufs := (dir_entry_bufs s)(dir_entry d := None)\<rparr>))
                else Inr s) (\<lambda>s.
          bind_r (kfree s directory) (\<lambda>(_, s). Inr (s\<lparr>fat_dirs := (fat_dirs s)(directory := None)\<rparr>)))))"

definition fat16_easy_dir_entry_free :: "'a fat_state_scheme \<Rightarrow> u32 \<Rightarrow> 'a fat_state_scheme outcome" where
  "fat16_easy_dir_entry_free s easy_dir_entry =
     bind_r (deref (easy_entries s) easy_dir_entry) (\<lambda>e.
       bind_r (case easy_type e of
           FAT_ITEM_TYPE_DIRECTORY \<Rightarrow> fat16_free_directory s (easy_ptr e)
         | FAT_ITEM_TYPE_FILE \<Rightarrow> bind_r (kfree s (easy_ptr e)) (\<lambda>(_, s).
             Inr (s\<lparr>dir_entry_bufs := (dir_entry_bufs s)(easy_ptr e := None)\<rparr>))) (\<lambda>s.
         bind_r (kfree s easy_dir_entry) (\<lambda>(_, s).
           Inr (s\<lparr>easy_entries := (easy_entries s)(easy_dir_entry := None)\<rparr>))))"

text \<open>The conversions between \<^verbatim>\<open>int\<close>, \<^verbatim>\<open>uint32_t\<close> and \<^verbatim>\<open>size_t\<close> are those of the assignments.\<close>

definition fat16_load_fat_directory :: "device \<Rightarrow> 'a fat_state_scheme \<Rightarrow> u8 list \<Rightarrow> (u32 \<times> 'a fat_state_scheme) outcome" where
  "fat16_load_fat_directory dev s raw =
     bind_r (raw_dir_entry raw) (\<lambda>raw_entry.
       if attribute raw_entry AND FAT_FILE_SUBDIRECTORY = 0 then Inr (0, s)
       else bind_r (kzalloc s 16) (\<lambda>(directory, s).
         if directory = 0 then Inr (0, s)
         else bind_r (get_private s) (\<lambda>fp.
           let cluster = sint (fat16_get_first_cluster raw_entry);
               cluster_sector = fat16_cluster_to_start_sector fp cluster in
           bind_r (fat16_get_total_items_for_directory dev s (of_int cluster_sector)) (\<lambda>(cnt, s).
             let directory_size = sint (of_int (cnt * 32) :: u32) in
             bind_r (kzalloc s (of_int directory_size)) (\<lambda>(entry, s).
               if entry = 0
               then bind_r (kfree s directory) (\<lambda>(_, s). Inr (0, s))
               else
                 let s = s\<lparr>fat_dirs := (fat_dirs s)(directory \<mapsto>
                       \<lparr>dir_entry = entry, dir_total = cnt, dir_sector = 0, dir_end_sector = 0\<rparr>)\<rparr> in
                 bind_r (fat16_read_internal dev s cluster 0 directory_size (replicate (nat directory_size) 0) 0)
                   (\<lambda>(rc, buf, s).
                     let s = s\<lparr>dir_entry_bufs := (dir_entry_bufs s)(entry \<mapsto> buf)\<rparr> in
                     if rc < 0
                     then bind_r (fat16_free_directory s directory) (\<lambda>s. Inr (0, s))
                     else Inr (directory, s)))))))"

definition fat16_get_easy_entry :: "device \<Rightarrow> 'a fat_state_scheme \<Rightarrow> u8 list \<Rightarrow> (u32 \<times> 'a fat_state_scheme) outcome" where
  "fat16_get_easy_entry dev s raw =
     bind_r (kzalloc s 8) (\<lambda>(easy_entry, s).
       if easy_entry = 0 then Inr (0, s)
       else bind_r (raw_dir_entry raw) (\<lambda>raw_entry.
         if attribute raw_entry AND FAT_FILE_SUBDIRECTORY \<noteq> 0
         then bind_r (fat16_load_fat_directory dev s raw) (\<lambda>(p, s).
           Inr (easy_entry, s\<lparr>easy_entries := (easy_entries s)(easy_entry \<mapsto>
             \<lparr>easy_ptr = p, easy_type = FAT_ITEM_TYPE_DIRECTORY\<rparr>)\<rparr>))
         else bind_r (fat16_clone_raw_dir_entry s raw 32) (\<lambda>(p, s).
           Inr (easy_entry, s\<lparr>easy_entries := (easy_entries s)(easy_entry \<mapsto>
             \<lparr>easy_ptr = p, easy_type = FAT_ITEM_TYPE_FILE\<rparr>)\<rparr>))))"

text \<open>
  The loop over the entries of a directory: \<open>buf\<close> is the entry array and \<open>entry\<close> the last match.
\<close>

function find_entry_loop :: "device \<Rightarrow> 'a fat_state_scheme \<Rightarrow> u8 list \<Rightarrow> int \<Rightarrow> u8 list \<Rightarrow> u32 \<Rightarrow> int \<Rightarrow>
    (u32 \<times> 'a fat_state_scheme) outcome" where
  "find_entry_loop dev s buf cnt name entry i =
     (if i < cnt
      then bind_r (fat16_get_filename (drop (32 * nat i) buf) (replicate MAX_FILE_PATH_CHARS 0) MAX_FILE_PATH_CHARS) (\<lambda>tmp_filename.
        bind_r (strnicmp tmp_filename name MAX_FILE_PATH_CHARS) (\<lambda>c.
          if c = 0
          then bind_r (fat16_get_easy_entry dev s (drop (32 * nat i) buf)) (\<lambda>(entry, s).
            find_entry_loop dev s buf cnt name entry (i + 1))
          else find_entry_loop dev s buf cnt name entry (i + 1)))
      else Inr (entry, s))"
  by pat_completeness auto
termination
  by (relation "measure (\<lambda>(dev, s, buf, cnt, name, entry, i). nat (cnt - i))") auto

declare find_entry_loop.simps [simp del]

definition fat16_find_entry_in_directory :: "device \<Rightarrow> 'a fat_state_scheme \<Rightarrow> fat_directory \<Rightarrow> u8 list \<Rightarrow>
    (u32 \<times> 'a fat_state_scheme) outcome" where
  "fat16_find_entry_in_directory dev s directory name =
     (if dir_total directory \<le> 0 then Inr (0, s)
      else bind_r (deref (dir_entry_bufs s) (dir_entry directory)) (\<lambda>buf.
        find_entry_loop dev s buf (dir_total directory) name 0 0))"

text \<open>The walk along the path: \<open>None\<close> when the list of path parts never ends.\<close>

partial_function (option) walk_loop :: "device \<Rightarrow> 'a fat_state_scheme \<Rightarrow> u32 \<Rightarrow> u32 \<Rightarrow>
    (u32 \<times> 'a fat_state_scheme) outcome option" where
  "walk_loop dev s curr_part_entry next_path_part =
     (if next_path_part = 0 then Some (Inr (curr_part_entry, s))
      else case deref (easy_entries s) curr_part_entry of
          Inl e \<Rightarrow> Some (Inl e)
        | Inr ce \<Rightarrow>
           (if easy_type ce \<noteq> FAT_ITEM_TYPE_DIRECTORY then Some (Inr (0, s))
            else case bind_r (deref (path_parts s) next_path_part) (\<lambda>pp.
                   bind_r (deref (char_bufs s) (part pp)) (\<lambda>name.
                     bind_r (deref (fat_dirs s) (easy_ptr ce)) (\<lambda>d.
                       bind_r (fat16_find_entry_in_directory dev s d name) (\<lambda>(tmp_entry, s).
                         bind_r (fat16_easy_dir_entry_free s curr_part_entry) (\<lambda>s.
                           Inr (tmp_entry, part_next pp, s)))))) of
                Inl e \<Rightarrow> Some (Inl e)
              | Inr (tmp_entry, nxt, s) \<Rightarrow> walk_loop dev s tmp_entry nxt))"

definition fat16_get_directory_entry :: "device \<Rightarrow> 'a fat_state_scheme \<Rightarrow> u32 \<Rightarrow> (u32 \<times> 'a fat_state_scheme) outcome" where
  "fat16_get_directory_entry dev s path =
     bind_r (get_private s) (\<lambda>fp.
       bind_r (deref (path_parts s) path) (\<lambda>pp.
         bind_r (deref (char_bufs s) (part pp)) (\<lambda>name.
           bind_r (fat16_find_entry_in_directory dev s (root_directory fp) name) (\<lambda>(first_part_entry, s).
             if first_part_entry = 0 then Inr (0, s)
             else case walk_loop dev s first_part_entry (part_next pp) of
                 None \<Rightarrow> Inl Diverge
               | Some res \<Rightarrow> res))))"

section \<open>File operations\<close>

definition ERROR :: "int \<Rightarrow> u32" where
  "ERROR v = of_int v"

definition IS_ERROR :: "u32 \<Rightarrow> bool" where
  "IS_ERROR v \<longleftrightarrow> sint v < 0"

definition fat16_fopen :: "device \<Rightarrow> 'a fat_state_scheme \<Rightarrow> u32 \<Rightarrow> file_mode \<Rightarrow> (u32 \<times> 'a fat_state_scheme) outcome" where
  "fat16_fopen dev s path mode =
     (if mode \<noteq> READ then Inr (ERROR (- ERDONLY), s)
      else bind_r (kzalloc s 8) (\<lambda>(fd, s).
        if fd = 0 then Inr (ERROR (- ENOMEM), s)
        else bind_r (fat16_get_directory_entry dev s path) (\<lambda>(e, s).
          if e = 0 then bind_r (kfree s fd) (\<lambda>(_, s). Inr (ERROR (- EIO), s))
          else Inr (fd, s\<lparr>fat_files := (fat_files s)(fd \<mapsto> \<lparr>easy_directory_entry = e, file_pos = 0\<rparr>)\<rparr>))))"

text \<open>The common start of the operations on an open file; \<open>None\<close> is a directory.\<close>

definition open_file_entry :: "'a fat_state_scheme \<Rightarrow> u32 \<Rightarrow> (fat_file_descriptor \<times> u32 option) outcome" where
  "open_file_entry s desc =
     bind_r (deref (fat_files s) desc) (\<lambda>d.
       bind_r (deref (easy_entries s) (easy_directory_entry d)) (\<lambda>e.
         Inr (d, if easy_type e = FAT_ITEM_TYPE_DIRECTORY then None else Some (easy_ptr e))))"

function fread_loop :: "device \<Rightarrow> 'a fat_state_scheme \<Rightarrow> int \<Rightarrow> int \<Rightarrow> u32 \<Rightarrow> u32 \<Rightarrow> u8 list \<Rightarrow> nat \<Rightarrow> u32 \<Rightarrow>
    (u32 \<times> u8 list \<times> 'a fat_state_scheme) outcome" where
  "fread_loop dev s cluster offset sz nmemb out oi count =
     (if count < nmemb
      then bind_r (fat16_read_internal dev s cluster offset (sint sz) out oi) (\<lambda>(rc, out, s).
        if rc < 0 then Inr (count, out, s)
        else fread_loop dev s cluster (sint (of_int offset + sz)) sz nmemb out (oi + unat sz) (count + 1))
      else Inr (count, out, s))"
  by pat_completeness auto
termination
proof (relation "measure (\<lambda>(dev, s, c, off, sz, nmemb, out, oi, count). unat (nmemb - count))", goal_cases)
  case (2 dev s cluster offset sz nmemb out oi count x y z w v)
  then have "unat (nmemb - (count + 1)) < unat (nmemb - count)"
    by unat_arith
  then show ?case by simp
qed simp

declare fread_loop.simps [simp del]

definition fat16_fread :: "device \<Rightarrow> 'a fat_state_scheme \<Rightarrow> u32 \<Rightarrow> u32 \<Rightarrow> u32 \<Rightarrow> u8 list \<Rightarrow>
    (u32 \<times> u8 list \<times> 'a fat_state_scheme) outcome" where
  "fat16_fread dev s descriptor sz nmemb out =
     bind_r (open_file_entry s descriptor) (\<lambda>(desc, entry).
       case entry of
         None \<Rightarrow> Inr (of_int (- EINVARG), out, s)
       | Some p \<Rightarrow> if nmemb = 0 then Inr (0, out, s)
           else bind_r (deref (dir_entry_bufs s) p) (\<lambda>raw. bind_r (raw_dir_entry raw) (\<lambda>raw_entry.
             fread_loop dev s (sint (fat16_get_first_cluster raw_entry)) (sint (file_pos desc)) sz nmemb out 0 0)))"

text \<open>\<^verbatim>\<open>whence\<close> is an enum; a value outside the three constants is \<open>None\<close>.\<close>

definition fat16_fseek :: "'a fat_state_scheme \<Rightarrow> u32 \<Rightarrow> u32 \<Rightarrow> file_seek_mode option \<Rightarrow> (int \<times> 'a fat_state_scheme) outcome" where
  "fat16_fseek s priv offset whence =
     bind_r (open_file_entry s priv) (\<lambda>(desc, entry).
       case entry of
         None \<Rightarrow> Inr (- EINVARG, s)
       | Some p \<Rightarrow> bind_r (deref (dir_entry_bufs s) p) (\<lambda>raw. bind_r (raw_dir_entry raw) (\<lambda>raw_entry.
           if offset \<ge> filesize raw_entry then Inr (- EIO, s)
           else case whence of
               Some SEEK_SET \<Rightarrow> Inr (0, s\<lparr>fat_files := (fat_files s)(priv \<mapsto> desc\<lparr>file_pos := offset\<rparr>)\<rparr>)
             | Some SEEK_CUR \<Rightarrow> Inr (0, s\<lparr>fat_files := (fat_files s)(priv \<mapsto> desc\<lparr>file_pos := file_pos desc + offset\<rparr>)\<rparr>)
             | Some SEEK_END \<Rightarrow> Inr (- EUNIMP, s)
             | None \<Rightarrow> Inr (- EINVARG, s))))"

abbreviation (input) FILE_STAT_READ_ONLY :: u32 where "FILE_STAT_READ_ONLY \<equiv> 1"

definition fat16_fstat :: "'a fat_state_scheme \<Rightarrow> u32 \<Rightarrow> file_stat \<Rightarrow> (int \<times> file_stat) outcome" where
  "fat16_fstat s priv stat =
     bind_r (open_file_entry s priv) (\<lambda>(desc, entry).
       case entry of
         None \<Rightarrow> Inr (- EINVARG, stat)
       | Some p \<Rightarrow> bind_r (deref (dir_entry_bufs s) p) (\<lambda>raw. bind_r (raw_dir_entry raw) (\<lambda>raw_entry.
           let flags = (if attribute raw_entry AND FAT_FILE_READ_ONLY \<noteq> 0 then 0 OR FILE_STAT_READ_ONLY else 0) in
           Inr (0, stat\<lparr>stat_filesize := filesize raw_entry, stat_flags := flags\<rparr>))))"

definition fat16_free_file_descriptor :: "'a fat_state_scheme \<Rightarrow> u32 \<Rightarrow> 'a fat_state_scheme outcome" where
  "fat16_free_file_descriptor s desc =
     bind_r (deref (fat_files s) desc) (\<lambda>d.
       bind_r (fat16_easy_dir_entry_free s (easy_directory_entry d)) (\<lambda>s.
         bind_r (kfree s desc) (\<lambda>(_, s). Inr (s\<lparr>fat_files := (fat_files s)(desc := None)\<rparr>))))"

definition fat16_fclose :: "'a fat_state_scheme \<Rightarrow> u32 \<Rightarrow> (int \<times> 'a fat_state_scheme) outcome" where
  "fat16_fclose s priv = bind_r (fat16_free_file_descriptor s priv) (\<lambda>s. Inr (0, s))"

section \<open>A mounted file system\<close>

text \<open>The private data of the mounted disk, with its streams.\<close>

definition mounted :: "'a fat_state_scheme \<Rightarrow> fat_private \<Rightarrow> bool" where
  "mounted s fp \<longleftrightarrow> fs_private (disk_dev s) \<noteq> 0 \<and> fat_privates s (fs_private (disk_dev s)) = Some fp \<and>
     sector_size (disk_dev s) = 512 \<and> 0 < sectors_per_cluster (header_primary (header fp)) \<and>
     0 \<le> dir_end_sector (root_directory fp) \<and> cluster_read_stream fp \<noteq> 0 \<and> fat_read_stream fp \<noteq> 0 \<and>
     (\<exists>st. streams s (cluster_read_stream fp) = Some st \<and> stream_disk st = TheDisk) \<and>
     (\<exists>st. streams s (fat_read_stream fp) = Some st \<and> stream_disk st = TheDisk)"

definition cluster_bytes :: "fat_private \<Rightarrow> int" where
  "cluster_bytes fp = 512 * uint (sectors_per_cluster (header_primary (header fp)))"

text \<open>The byte of the disk at which a cluster starts.\<close>

definition cluster_pos :: "fat_private \<Rightarrow> int \<Rightarrow> int" where
  "cluster_pos fp c = 512 * fat16_cluster_to_start_sector fp c"

lemma sdiv_nonneg: "0 \<le> x \<Longrightarrow> 0 < y \<Longrightarrow> x sdiv y = x div (y :: int)"
  "0 \<le> x \<Longrightarrow> 0 < y \<Longrightarrow> x smod y = x mod (y :: int)"
  by (auto simp: signed_divide_int_def signed_modulo_int_def sgn_if)

lemma cluster_bytes_pos: "mounted s fp \<Longrightarrow> 0 < cluster_bytes fp"
  by (simp add: mounted_def cluster_bytes_def word_less_def)

lemma mounted_simps:
  assumes "mounted s fp"
  shows "get_private s = Inr fp" "cluster_size_bytes s fp = cluster_bytes fp" "sector_size (disk_dev s) = 512"
  using assms by (auto simp: mounted_def get_private_def deref_def cluster_size_bytes_def cluster_bytes_def)

lemma mounted_streams [simp]:
  assumes "mounted s fp" "streams s p = Some st" "stream_disk st = TheDisk"
  shows "mounted (s\<lparr>streams := (streams s)(p \<mapsto> st\<lparr>pos := x\<rparr>), io_trace := tr\<rparr>) fp"
  using assms by (auto simp: mounted_def)

text \<open>Seeking a stream and reading from it.\<close>

lemma seek_read:
  assumes "ata_ok dev img n" "streams s p = Some st" "stream_disk st = TheDisk" "p \<noteq> 0" "0 \<le> a" "0 \<le> cnt"
    "a + cnt < 2 ^ 31" "oi + nat cnt \<le> length out"
  shows "\<exists>s1 tr. disk_stream_seek s p a = Inr (0, s1) \<and>
    disk_stream_read dev s1 p out oi cnt = Inr (0, take oi out @ img_bytes img (nat a) (nat cnt) @ drop (oi + nat cnt) out,
      s\<lparr>streams := (streams s)(p \<mapsto> st\<lparr>pos := a + cnt\<rparr>), io_trace := tr\<rparr>)"
proof -
  let ?s = "s\<lparr>streams := (streams s)(p \<mapsto> st\<lparr>pos := a\<rparr>)\<rparr>"
  have "disk_stream_seek s p a = Inr (0, ?s)" using assms(2,4) by (simp add: disk_stream_seek_def deref_def)
  moreover obtain tr where "disk_stream_read dev ?s p out oi cnt =
      Inr (0, take oi out @ img_bytes img (nat a) (nat cnt) @ drop (oi + nat cnt) out,
        s\<lparr>streams := (streams s)(p \<mapsto> st\<lparr>pos := a + cnt\<rparr>), io_trace := tr\<rparr>)"
    using disk_stream_read_result [OF assms(1), of ?s p "st\<lparr>pos := a\<rparr>" cnt oi out] assms(3,5-8) by auto
  ultimately show ?thesis by blast
qed

section \<open>Clusters\<close>

lemma cluster_in_chain_first:
  assumes "mounted s fp" "0 \<le> offset" "offset < cluster_bytes fp"
  shows "fat16_get_cluster_in_chain dev s c offset = Inr (c, s)"
proof -
  have "offset sdiv cluster_bytes fp = 0"
    using assms(2,3) cluster_bytes_pos [OF assms(1)] by (simp add: sdiv_nonneg)
  then show ?thesis
    using mounted_simps [OF assms(1)] cluster_bytes_pos [OF assms(1)]
    by (simp add: fat16_get_cluster_in_chain_def chain_loop.simps)
qed

text \<open>Every entry of the FAT is read as 0: the entry is overwritten by the return code.\<close>

lemma fat_entry_is_zero:
  assumes "ata_ok dev img n" "mounted s fp" "0 \<le> c" "c < 65536"
  shows "\<exists>s'. fat16_get_fat_entry dev s c = Inr (0, s') \<and> mounted s' fp"
proof -
  let ?p = "fat_read_stream fp"
  obtain st where st: "streams s ?p = Some st" "stream_disk st = TheDisk" "?p \<noteq> 0"
    using assms(2) by (auto simp: mounted_def)
  let ?r = "uint (reserved_sectors (header_primary (header fp)))"
  let ?a = "?r * 512 + c * 2"
  have r: "0 \<le> ?r" "?r < 65536" using uint_lt2p [of "reserved_sectors (header_primary (header fp))"] by simp_all
  have a: "0 \<le> ?a" "?a + 2 < 2 ^ 31" using r assms(3,4) by simp_all
  have w: "fat16_get_first_fat_sector fp * 512 + of_int (c * 2) = (of_int ?a :: u32)"
    by (simp add: fat16_get_first_fat_sector_def)
  have "sint (of_int ?a :: u32) = ?a" using a by (intro sint_of_int_small) simp_all
  then have pos: "sint (fat16_get_first_fat_sector fp * of_int (sector_size (disk_dev s)) + of_int (c * 2)) = ?a"
    using w mounted_simps(3) [OF assms(2)] by simp
  obtain s1 tr where "disk_stream_seek s ?p ?a = Inr (0, s1)"
    "disk_stream_read dev s1 ?p [0, 0] 0 2 = Inr (0, take 0 [0, 0] @ img_bytes img (nat ?a) (nat 2) @ drop (0 + nat 2) [0, 0],
      s\<lparr>streams := (streams s)(?p \<mapsto> st\<lparr>pos := ?a + 2\<rparr>), io_trace := tr\<rparr>)"
    using seek_read [OF assms(1) st a(1) _ a(2), of 0 "[0, 0]"] by auto
  then have "fat16_get_fat_entry dev s c = Inr (0, s\<lparr>streams := (streams s)(?p \<mapsto> st\<lparr>pos := ?a + 2\<rparr>), io_trace := tr\<rparr>)"
    using mounted_simps(1) [OF assms(2)] pos by (simp add: fat16_get_fat_entry_def Let_def)
  then show ?thesis using mounted_streams [OF assms(2) st(1,2)] by blast
qed

lemma cluster_in_chain_far:
  assumes "ata_ok dev img n" "mounted s fp" "0 \<le> c" "c < 65536" "cluster_bytes fp \<le> offset"
  shows "\<exists>s'. fat16_get_cluster_in_chain dev s c offset = Inr (- EIO, s') \<and> mounted s' fp"
proof -
  note cb = cluster_bytes_pos [OF assms(2)]
  have "0 < offset sdiv cluster_bytes fp"
    using assms(5) cb by (simp add: sdiv_nonneg pos_imp_zdiv_pos_iff)
  moreover obtain s' where "fat16_get_fat_entry dev s c = Inr (0, s')" "mounted s' fp"
    using fat_entry_is_zero [OF assms(1-4)] by blast
  ultimately show ?thesis
    using mounted_simps [OF assms(2)] cb
    by (simp add: fat16_get_cluster_in_chain_def chain_loop.simps [of dev s])
qed

lemma read_internal_far:
  assumes "ata_ok dev img n" "mounted s fp" "0 \<le> c" "c < 65536" "cluster_bytes fp \<le> offset"
  shows "\<exists>s'. fat16_read_internal dev s c offset cnt out oi = Inr (- EIO, out, s') \<and> mounted s' fp"
  using cluster_in_chain_far [OF assms] mounted_simps [OF assms(2)] cluster_bytes_pos [OF assms(2)]
  by (subst fat16_read_internal.simps) auto

text \<open>The part of a read that starts in the first cluster; at most a cluster is read at once.\<close>

lemma read_internal_step:
  assumes ata: "ata_ok dev img k" and m: "mounted s fp" and off: "0 \<le> offset" "offset < cluster_bytes fp"
    and a: "0 \<le> c" "0 \<le> cluster_pos fp c" "cluster_pos fp c + offset + cnt < 2 ^ 31" and cnt: "0 \<le> cnt"
    and out: "oi + nat cnt \<le> length out"
  shows "\<exists>s' out'. mounted s' fp \<and>
    out' = take oi out @ img_bytes img (nat (cluster_pos fp c + offset)) (nat (min cnt (cluster_bytes fp))) @
      drop (oi + nat (min cnt (cluster_bytes fp))) out \<and>
    fat16_read_internal dev s c offset cnt out oi =
      (if cnt \<le> cluster_bytes fp then Inr (0, out', s')
       else fat16_read_internal dev s' c (offset + cluster_bytes fp) (cnt - cluster_bytes fp) out' (oi + nat (cluster_bytes fp)))"
proof -
  let ?p = "cluster_read_stream fp" and ?b = "min cnt (cluster_bytes fp)"
  obtain st where st: "streams s ?p = Some st" "stream_disk st = TheDisk" "?p \<noteq> 0"
    using m by (auto simp: mounted_def)
  note cb = cluster_bytes_pos [OF m]
  have mod: "offset smod cluster_bytes fp = offset" using off cb by (simp add: sdiv_nonneg)
  have start: "fat16_cluster_to_start_sector fp c * 512 + offset = cluster_pos fp c + offset"
    by (simp add: cluster_pos_def)
  have bounds: "0 \<le> ?b" "cluster_pos fp c + offset + ?b < 2 ^ 31" "oi + nat ?b \<le> length out"
    using cnt cb a(3) out by (auto simp: min_def)
  obtain s1 tr where sk: "disk_stream_seek s ?p (cluster_pos fp c + offset) = Inr (0, s1)"
    and rd: "disk_stream_read dev s1 ?p out oi ?b =
      Inr (0, take oi out @ img_bytes img (nat (cluster_pos fp c + offset)) (nat ?b) @ drop (oi + nat ?b) out,
        s\<lparr>streams := (streams s)(?p \<mapsto> st\<lparr>pos := cluster_pos fp c + offset + ?b\<rparr>), io_trace := tr\<rparr>)"
    using seek_read [OF ata st _ bounds(1,2,3)] a(2) off(1) by auto
  show ?thesis
    using mounted_streams [OF m st(1,2)] cluster_in_chain_first [OF m off] mounted_simps [OF m] cb a(1) sk rd mod start
    by (subst (1) fat16_read_internal.simps) (auto simp: min_def Let_def not_le split: if_splits)
qed

section \<open>Open files\<close>

text \<open>\<open>desc\<close> is an open file with descriptor \<open>d\<close> and directory entry \<open>e\<close>.\<close>

definition file_open :: "'a fat_state_scheme \<Rightarrow> u32 \<Rightarrow> fat_file_descriptor \<Rightarrow> fat_directory_entry \<Rightarrow> bool" where
  "file_open s desc d e \<longleftrightarrow> (\<exists>p raw. open_file_entry s desc = Inr (d, Some p) \<and> p \<noteq> 0 \<and>
     dir_entry_bufs s p = Some raw \<and> raw_dir_entry raw = Inr e)"

abbreviation (input) first_cluster :: "fat_directory_entry \<Rightarrow> int" where
  "first_cluster e \<equiv> sint (fat16_get_first_cluster e)"

lemma first_cluster_bounds: "0 \<le> first_cluster e" "first_cluster e < 65536"
proof -
  let ?w = "low_16_bits_first_cluster e OR high_16_bits_first_cluster e"
  have "(ucast w :: u32) = of_int (uint w)" for w :: u16 by simp
  moreover have "fat16_get_first_cluster e = ucast ?w"
    by (simp add: fat16_get_first_cluster_def unsigned_or_eq)
  moreover have u: "0 \<le> uint ?w" "uint ?w < 65536" using uint_lt2p [of ?w] by simp_all
  moreover from u have "uint ?w < 2147483648" by linarith
  ultimately have "first_cluster e = uint ?w" using sint_of_int_small [of "uint ?w"] by metis
  with u show "0 \<le> first_cluster e" "first_cluster e < 65536" by simp_all
qed

lemma fread_unfold:
  assumes "file_open s desc d e" "nmemb \<noteq> 0"
  shows "fat16_fread dev s desc sz nmemb out = fread_loop dev s (first_cluster e) (sint (file_pos d)) sz nmemb out 0 0"
  using assms by (auto simp: file_open_def fat16_fread_def deref_def)

lemma fread_one:
  assumes "file_open s desc d e"
    "fat16_read_internal dev s (first_cluster e) (sint (file_pos d)) (sint sz) out 0 = Inr (rc, out', s')"
  shows "fat16_fread dev s desc sz 1 out = Inr (if rc < 0 then 0 else 1, out', s')"
  unfolding fread_unfold [OF assms(1) one_neq_zero]
  using assms(2) by (subst fread_loop.simps) (simp add: fread_loop.simps [of _ _ _ _ _ _ _ _ 1])

text \<open>Reading within the first cluster, and reading more than a cluster.\<close>

lemma read_internal_within:
  assumes "ata_ok dev img k" "mounted s fp" "f < nat (cluster_bytes fp)" "z \<le> nat (cluster_bytes fp)" "z \<le> length out"
    "0 \<le> c" "0 \<le> cluster_pos fp c" "cluster_pos fp c + 2 * cluster_bytes fp < 2 ^ 31"
  shows "\<exists>s'. fat16_read_internal dev s c (int f) (int z) out 0 =
    Inr (0, img_bytes img (nat (cluster_pos fp c) + f) z @ drop z out, s')"
proof -
  have z: "int z \<le> cluster_bytes fp" "min (int z) (cluster_bytes fp) = int z" using assms(3,4) by linarith+
  have "nat (cluster_pos fp c + int f) = nat (cluster_pos fp c) + f" using assms(7) by linarith
  moreover have "int f < cluster_bytes fp" using assms(3) by linarith
  ultimately show ?thesis using z
      read_internal_step [OF assms(1,2), of "int f" c "int z" 0 out] assms(3-8) by auto
qed

lemma read_internal_beyond:
  assumes "ata_ok dev img k" "mounted s fp" "nat (cluster_bytes fp) < z" "z \<le> length out"
    "0 \<le> c" "c < 65536" "0 \<le> cluster_pos fp c" "cluster_pos fp c + int z < 2 ^ 31"
  shows "\<exists>out' s'. fat16_read_internal dev s c 0 (int z) out 0 = Inr (- EIO, out', s')"
proof -
  note cb = cluster_bytes_pos [OF assms(2)]
  have nz: "\<not> int z \<le> cluster_bytes fp" using assms(3) by linarith
  obtain s1 out' where m: "mounted s1 fp" and step: "fat16_read_internal dev s c 0 (int z) out 0 =
      fat16_read_internal dev s1 c (0 + cluster_bytes fp) (int z - cluster_bytes fp) out' (0 + nat (cluster_bytes fp))"
    using read_internal_step [OF assms(1,2), of 0 c "int z" 0 out] assms(4-8) cb nz by auto
  show ?thesis unfolding step
    using read_internal_far [OF assms(1) m assms(5,6), of "0 + cluster_bytes fp"] by fastforce
qed

section \<open>A mounted disk for examples\<close>

definition demo_private :: fat_private where
  "demo_private = \<lparr>header = zero_header\<lparr>header_primary := (header_primary zero_header)\<lparr>sectors_per_cluster := 1\<rparr>\<rparr>,
     root_directory = \<lparr>dir_entry = 0, dir_total = 0, dir_sector = 8, dir_end_sector = 10\<rparr>,
     cluster_read_stream = 0x01000000, fat_read_stream = 0x01001000, directory_stream = 0x01002000\<rparr>"

definition demo_raw :: "u8 list" where
  "demo_raw = [0x20, 0x20, 0x20, 0x20, 0x20, 0x20, 0x20, 0x20, 0x20, 0x20, 0x20, 0x20, 0x20, 0x20, 0x20, 0x20,
     0x20, 0x20, 0x20, 0x20, 0, 0, 0x20, 0x20, 0x20, 0x20, 3, 0, 0, 2, 0, 0]"

definition demo_mounted :: fat_state where
  "demo_mounted = path_state.extend (demo_path_state\<lparr>
       disk_dev := \<lparr>dtype = REAL, disk_id = 0, sector_size = 512, filesystem = Fat16Filesystem, fs_private = 0x01003000\<rparr>,
       streams := [0x01000000 \<mapsto> \<lparr>pos = 0, stream_disk = TheDisk\<rparr>, 0x01001000 \<mapsto> \<lparr>pos = 0, stream_disk = TheDisk\<rparr>]\<rparr>)
     (fat_state.fields [0x01003000 \<mapsto> demo_private] [0x01004000 \<mapsto> demo_raw] Map.empty
       [0x01005000 \<mapsto> \<lparr>easy_ptr = 0x01004000, easy_type = FAT_ITEM_TYPE_FILE\<rparr>]
       [0x01006000 \<mapsto> \<lparr>easy_directory_entry = 0x01005000, file_pos = 0\<rparr>])"

lemma demo_mounted_ok: "mounted demo_mounted demo_private"
  by (simp add: mounted_def demo_mounted_def path_state.defs fat_state.defs demo_private_def)

lemma demo_cluster_bytes: "cluster_bytes demo_private = 512"
  by (simp add: cluster_bytes_def demo_private_def)

definition demo_entry :: fat_directory_entry where
  "demo_entry = \<lparr>filename = [0x20, 0x20, 0x20, 0x20, 0x20, 0x20, 0x20, 0x20], ext = [0x20, 0x20, 0x20], attribute = 0x20, reserved = 0x20,
     creation_time_millisecond = 0x20, creation_time = 0x2020, creation_date = 0x2020, last_access = 0x2020,
     high_16_bits_first_cluster = 0, last_mod_time = 0x2020, last_mod_date = 0x2020, low_16_bits_first_cluster = 3, filesize = 512\<rparr>"

lemma demo_raw_entry: "raw_dir_entry demo_raw = Inr demo_entry"
  by (simp add: raw_dir_entry_def demo_raw_def demo_entry_def le16_def le32_def)

lemma demo_file_open: "file_open demo_mounted 0x01006000 \<lparr>easy_directory_entry = 0x01005000, file_pos = 0\<rparr> demo_entry"
  by (simp add: file_open_def open_file_entry_def demo_mounted_def path_state.defs fat_state.defs deref_def demo_raw_entry)

lemma demo_bytes: "(5634 :: u8) = 2" "(5635 :: u8) = 3" "(5636 :: u8) = 4"
  by simp_all

lemma demo_first_cluster: "filesize demo_entry = 512" "first_cluster demo_entry = 3" "cluster_pos demo_private 3 = 5632"
  by (simp_all add: fat16_get_first_cluster_def demo_entry_def cluster_pos_def fat16_cluster_to_start_sector_def demo_private_def)

lemma open_file_entry_set:
  "open_file_entry s desc = Inr (d, q) \<Longrightarrow>
    open_file_entry (s\<lparr>fat_files := (fat_files s)(desc \<mapsto> d\<lparr>file_pos := off\<rparr>)\<rparr>) desc = Inr (d\<lparr>file_pos := off\<rparr>, q)"
  by (auto simp: open_file_entry_def deref_def bind_r_def split: option.splits sum.splits)

lemma fseek_set:
  assumes "file_open s desc d e" "off < filesize e"
  shows "\<exists>s1. fat16_fseek s desc off (Some SEEK_SET) = Inr (0, s1) \<and> s1 = s\<lparr>fat_files := (fat_files s)(desc \<mapsto> d\<lparr>file_pos := off\<rparr>)\<rparr> \<and>
    file_open s1 desc (d\<lparr>file_pos := off\<rparr>) e"
proof -
  obtain p raw where p: "open_file_entry s desc = Inr (d, Some p)" "p \<noteq> 0" "dir_entry_bufs s p = Some raw" "raw_dir_entry raw = Inr e"
    using assms(1) unfolding file_open_def by blast
  then have "file_open (s\<lparr>fat_files := (fat_files s)(desc \<mapsto> d\<lparr>file_pos := off\<rparr>)\<rparr>) desc (d\<lparr>file_pos := off\<rparr>) e"
    by (simp add: file_open_def open_file_entry_set)
  then show ?thesis using p assms(2) by (simp add: fat16_fseek_def deref_def)
qed

section \<open>Properties\<close>



text \<open>
  C14. Reading more than a cluster fails: an item longer than a cluster is never returned. The FAT
  entry that should name the next cluster is read as 0, because \<open>fat16_get_fat_entry\<close> returns the
  return code of the read, so that the count of items is 0 whatever the disk holds.
\<close>

theorem fread_beyond_cluster_fails:
  assumes "ata_ok dev img k" "mounted s fp" "file_open s desc d e" "file_pos d = 0"
    "nat (cluster_bytes fp) < unat sz" "unat sz \<le> length out"
    "0 \<le> cluster_pos fp (sint (fat16_get_first_cluster e))"
    "cluster_pos fp (sint (fat16_get_first_cluster e)) + int (unat sz) < 2 ^ 31"
  shows "\<exists>out' s'. fat16_fread dev s desc sz 1 out = Inr (0, out', s')"
proof -
  obtain z where z: "unat sz = z" by simp
  have "z < 2147483648" using assms(7,8) unfolding z by simp
  then have "sint sz = int z" using sint_small [of sz] unfolding z by simp
  moreover obtain out' s' where "fat16_read_internal dev s (first_cluster e) 0 (int z) out 0 = Inr (- EIO, out', s')"
    using read_internal_beyond [OF assms(1,2) assms(5,6) first_cluster_bounds assms(7,8)] unfolding z by blast
  ultimately show ?thesis using fread_one [OF assms(3), of dev sz out "- EIO" out' s'] assms(4) by simp
qed

theorem fread_beyond_cluster_fails_witness:
  "\<exists>out' s'. fat16_fread (sim_ata of_nat) demo_mounted 0x01006000 513 1 (replicate 513 0) = Inr (0, out', s')"
  using fread_beyond_cluster_fails [OF sim_ata_ok [of of_nat] demo_mounted_ok demo_file_open, of 513 "replicate 513 0"]
  by (simp add: demo_first_cluster demo_cluster_bytes)

end
