(* ===== verification/Vfs.thy ===== *)
theory Vfs
  imports Fat16
begin

text \<open>
  The virtual file system \<^verbatim>\<open>src/src/fs/file.c\<close> and \<^verbatim>\<open>disk_search_and_init\<close> of \<^verbatim>\<open>src/src/disk/disk.c\<close>.
  A \<^verbatim>\<open>struct filesystem\<close> pointer is \<open>filesystem_ptr\<close>; calls through its function pointers
  dispatch on it to the functions of \<^verbatim>\<open>fat16_fs\<close>. The static tables of open files and drivers are
  lists of their fixed lengths.
\<close>

record file_descriptor =
  fd_index :: int
  fd_filesystem :: filesystem_ptr
  fd_disk :: disk_ptr
  fd_private :: u32

record vfs_state = fat_state +
  filesystems :: "filesystem_ptr list"
  file_descriptors :: "u32 list"
  file_descs :: "u32 \<rightharpoonup> file_descriptor"

abbreviation (input) MAX_FILESYSTEMS :: int where "MAX_FILESYSTEMS \<equiv> 12"
abbreviation (input) MAX_OPEN_FILES :: int where "MAX_OPEN_FILES \<equiv> 512"

section \<open>The filesystem interface\<close>

text \<open>The members of \<^verbatim>\<open>struct filesystem\<close>; a call through a null pointer is a fault.\<close>

definition fs_call_resolve :: "device \<Rightarrow> 'a fat_state_scheme \<Rightarrow> filesystem_ptr \<Rightarrow> (int \<times> 'a fat_state_scheme) outcome" where
  "fs_call_resolve dev s fs = (case fs of NoFilesystem \<Rightarrow> Inl NullDeref | Fat16Filesystem \<Rightarrow> fat16_resolve dev s)"

definition fs_call_open :: "device \<Rightarrow> 'a fat_state_scheme \<Rightarrow> filesystem_ptr \<Rightarrow> u32 \<Rightarrow> file_mode \<Rightarrow> (u32 \<times> 'a fat_state_scheme) outcome" where
  "fs_call_open dev s fs path mode =
     (case fs of NoFilesystem \<Rightarrow> Inl NullDeref | Fat16Filesystem \<Rightarrow> fat16_fopen dev s path mode)"

definition fs_call_fread :: "device \<Rightarrow> 'a fat_state_scheme \<Rightarrow> filesystem_ptr \<Rightarrow> u32 \<Rightarrow> u32 \<Rightarrow> u32 \<Rightarrow> u8 list \<Rightarrow>
    (u32 \<times> u8 list \<times> 'a fat_state_scheme) outcome" where
  "fs_call_fread dev s fs priv sz nmemb out =
     (case fs of NoFilesystem \<Rightarrow> Inl NullDeref | Fat16Filesystem \<Rightarrow> fat16_fread dev s priv sz nmemb out)"

definition fs_call_fseek :: "'a fat_state_scheme \<Rightarrow> filesystem_ptr \<Rightarrow> u32 \<Rightarrow> u32 \<Rightarrow> file_seek_mode option \<Rightarrow>
    (int \<times> 'a fat_state_scheme) outcome" where
  "fs_call_fseek s fs priv offset whence =
     (case fs of NoFilesystem \<Rightarrow> Inl NullDeref | Fat16Filesystem \<Rightarrow> fat16_fseek s priv offset whence)"

definition fs_call_fstat :: "'a fat_state_scheme \<Rightarrow> filesystem_ptr \<Rightarrow> u32 \<Rightarrow> file_stat \<Rightarrow> (int \<times> file_stat) outcome" where
  "fs_call_fstat s fs priv stat =
     (case fs of NoFilesystem \<Rightarrow> Inl NullDeref | Fat16Filesystem \<Rightarrow> fat16_fstat s priv stat)"

definition fs_call_fclose :: "'a fat_state_scheme \<Rightarrow> filesystem_ptr \<Rightarrow> u32 \<Rightarrow> (int \<times> 'a fat_state_scheme) outcome" where
  "fs_call_fclose s fs priv =
     (case fs of NoFilesystem \<Rightarrow> Inl NullDeref | Fat16Filesystem \<Rightarrow> fat16_fclose s priv)"

section \<open>Drivers\<close>

fun free_slot :: "filesystem_ptr list \<Rightarrow> nat \<Rightarrow> nat option" where
  "free_slot [] i = None"
| "free_slot (f # fs) i = (if f = NoFilesystem then Some i else free_slot fs (Suc i))"

definition get_free_fs_slot :: "'a vfs_state_scheme \<Rightarrow> nat option" where
  "get_free_fs_slot s = free_slot (filesystems s) 0"

definition fs_insert_filesystem :: "'a vfs_state_scheme \<Rightarrow> filesystem_ptr \<Rightarrow> 'a vfs_state_scheme outcome" where
  "fs_insert_filesystem s fs =
     (if fs = NoFilesystem then Inl (Panic ''ERROR: fs_insert_filesystem passed invalid filesystem'')
      else case get_free_fs_slot s of
          None \<Rightarrow> Inl (Panic ''ERROR: fs_insert_filesystem no free fs slots'')
        | Some i \<Rightarrow> Inr (s\<lparr>filesystems := (filesystems s)[i := fs]\<rparr>))"

definition fs_static_load :: "'a vfs_state_scheme \<Rightarrow> 'a vfs_state_scheme outcome" where
  "fs_static_load s =
     fs_insert_filesystem (s\<lparr>filesystems := replicate (nat MAX_FILESYSTEMS) NoFilesystem\<rparr>) Fat16Filesystem"

definition fs_init :: "'a vfs_state_scheme \<Rightarrow> 'a vfs_state_scheme outcome" where
  "fs_init s = fs_static_load (s\<lparr>file_descriptors := replicate (nat MAX_OPEN_FILES) 0\<rparr>)"

fun resolve_loop :: "device \<Rightarrow> 'a vfs_state_scheme \<Rightarrow> filesystem_ptr list \<Rightarrow> (filesystem_ptr \<times> 'a vfs_state_scheme) outcome" where
  "resolve_loop dev s [] = Inr (NoFilesystem, s)"
| "resolve_loop dev s (f # fs) =
     (if f \<noteq> NoFilesystem
      then bind_r (fs_call_resolve dev s f) (\<lambda>(rc, s). if rc = 0 then Inr (f, s) else resolve_loop dev s fs)
      else resolve_loop dev s fs)"

definition fs_resolve :: "device \<Rightarrow> 'a vfs_state_scheme \<Rightarrow> (filesystem_ptr \<times> 'a vfs_state_scheme) outcome" where
  "fs_resolve dev s = resolve_loop dev s (filesystems s)"

definition disk_search_and_init :: "device \<Rightarrow> 'a vfs_state_scheme \<Rightarrow> 'a vfs_state_scheme outcome" where
  "disk_search_and_init dev s =
     bind_r (fs_resolve dev (s\<lparr>disk_dev :=
         \<lparr>dtype = REAL, disk_id = 0, sector_size = DISK_SECTOR_SIZE, filesystem = NoFilesystem, fs_private = 0\<rparr>\<rparr>))
       (\<lambda>(fs, s). Inr (s\<lparr>disk_dev := (disk_dev s)\<lparr>filesystem := fs\<rparr>\<rparr>))"

section \<open>Open files\<close>

definition free_file_descriptor :: "'a vfs_state_scheme \<Rightarrow> u32 \<Rightarrow> 'a vfs_state_scheme outcome" where
  "free_file_descriptor s desc =
     bind_r (deref (file_descs s) desc) (\<lambda>d.
       bind_r (upd_r (file_descriptors s) (fd_index d) 0) (\<lambda>fds.
         bind_r (kfree (s\<lparr>file_descriptors := fds\<rparr>) desc) (\<lambda>(_, s).
           Inr (s\<lparr>file_descs := (file_descs s)(desc := None)\<rparr>))))"

fun free_fd :: "u32 list \<Rightarrow> nat \<Rightarrow> nat option" where
  "free_fd [] i = None"
| "free_fd (d # ds) i = (if d = 0 then Some i else free_fd ds (Suc i))"

text \<open>The pointer stored is written through without a check for null.\<close>

definition file_new_descriptor :: "'a vfs_state_scheme \<Rightarrow> (int \<times> u32 \<times> 'a vfs_state_scheme) outcome" where
  "file_new_descriptor s =
     (case free_fd (file_descriptors s) 0 of
        None \<Rightarrow> Inr (- ENOMEM, 0, s)
      | Some i \<Rightarrow> bind_r (kzalloc s 16) (\<lambda>(p, s).
          if p = 0 then Inl NullDeref
          else Inr (0, p, s\<lparr>file_descriptors := (file_descriptors s)[i := p],
            file_descs := (file_descs s)(p \<mapsto>
              \<lparr>fd_index = int i, fd_filesystem = NoFilesystem, fd_disk = NoDisk, fd_private = 0\<rparr>)\<rparr>)))"

definition file_get_descriptor :: "'a vfs_state_scheme \<Rightarrow> int \<Rightarrow> u32 outcome" where
  "file_get_descriptor s fd =
     (if fd < 0 \<or> fd > MAX_OPEN_FILES - 1 then Inr 0 else nth_r (file_descriptors s) fd)"

definition file_get_mode_by_string :: "u8 list \<Rightarrow> file_mode outcome" where
  "file_get_mode_by_string str =
     bind_r (strncmp str [114, 0] 1) (\<lambda>r. if r = 0 then Inr READ else
     bind_r (strncmp str [119, 0] 1) (\<lambda>w. if w = 0 then Inr WRITE else
     bind_r (strncmp str [97, 0] 1) (\<lambda>a. if a = 0 then Inr APPEND else Inr INVALID)))"

definition open_on_disk :: "device \<Rightarrow> 'a vfs_state_scheme \<Rightarrow> u32 \<Rightarrow> file_mode \<Rightarrow> (int \<times> 'a vfs_state_scheme) outcome" where
  "open_on_disk dev s path mode =
     bind_r (fs_call_open dev s (filesystem (disk_dev s)) path mode) (\<lambda>(priv, s).
       if IS_ERROR priv then Inr (sint priv, s)
       else bind_r (file_new_descriptor s) (\<lambda>(rc, file, s).
         if rc < 0 then Inr (rc, s)
         else bind_r (deref (file_descs s) file) (\<lambda>d.
           Inr (fd_index d, s\<lparr>file_descs := (file_descs s)(file \<mapsto>
             d\<lparr>fd_filesystem := filesystem (disk_dev s), fd_private := priv, fd_disk := TheDisk\<rparr>)\<rparr>))))"

definition fopen :: "device \<Rightarrow> 'a vfs_state_scheme \<Rightarrow> u8 list \<Rightarrow> u8 list \<Rightarrow> (int \<times> 'a vfs_state_scheme) outcome" where
  "fopen dev s fname mode_str =
     bind_r (pparser_parse s fname) (\<lambda>(path_root, s).
       if path_root = 0 then Inr (- EINVARG, s)
       else bind_r (deref (path_roots s) path_root) (\<lambda>root.
         if first_part root = 0 then Inr (- EINVARG, s)
         else if disk_get (drive_no root) = NoDisk then Inr (- EIO, s)
         else if filesystem (disk_dev s) = NoFilesystem then Inr (- EIO, s)
         else bind_r (file_get_mode_by_string mode_str) (\<lambda>mode.
           if mode = INVALID then Inr (- EINVARG, s)
           else open_on_disk dev s (first_part root) mode)))"

definition fread :: "device \<Rightarrow> 'a vfs_state_scheme \<Rightarrow> u8 list \<Rightarrow> u32 \<Rightarrow> u32 \<Rightarrow> int \<Rightarrow> (u32 \<times> u8 list \<times> 'a vfs_state_scheme) outcome" where
  "fread dev s out sz nmemb fd =
     (if sz = 0 \<or> nmemb = 0 \<or> fd < 0 then Inr (of_int (- EINVARG), out, s)
      else bind_r (file_get_descriptor s fd) (\<lambda>p.
        if p = 0 then Inr (of_int (- EINVARG), out, s)
        else bind_r (deref (file_descs s) p) (\<lambda>d.
          fs_call_fread dev s (fd_filesystem d) (fd_private d) sz nmemb out)))"

definition fseek :: "'a vfs_state_scheme \<Rightarrow> int \<Rightarrow> u32 \<Rightarrow> file_seek_mode option \<Rightarrow> (int \<times> 'a vfs_state_scheme) outcome" where
  "fseek s fd offset whence =
     bind_r (file_get_descriptor s fd) (\<lambda>p.
       if p = 0 then Inr (- EINVARG, s)
       else bind_r (deref (file_descs s) p) (\<lambda>d. fs_call_fseek s (fd_filesystem d) (fd_private d) offset whence))"

definition fstat :: "'a vfs_state_scheme \<Rightarrow> int \<Rightarrow> file_stat \<Rightarrow> (int \<times> file_stat) outcome" where
  "fstat s fd stat =
     bind_r (file_get_descriptor s fd) (\<lambda>p.
       if p = 0 then Inr (- EINVARG, stat)
       else bind_r (deref (file_descs s) p) (\<lambda>d. fs_call_fstat s (fd_filesystem d) (fd_private d) stat))"

definition fclose :: "'a vfs_state_scheme \<Rightarrow> int \<Rightarrow> (int \<times> 'a vfs_state_scheme) outcome" where
  "fclose s fd =
     bind_r (file_get_descriptor s fd) (\<lambda>p.
       if p = 0 then Inr (- EINVARG, s)
       else bind_r (deref (file_descs s) p) (\<lambda>d.
         bind_r (fs_call_fclose s (fd_filesystem d) (fd_private d)) (\<lambda>(_, s).
           bind_r (free_file_descriptor s p) (\<lambda>s. Inr (0, s)))))"

end
