(* ===== verification/Mount.thy ===== *)
theory Mount
  imports Vfs
begin

text \<open>
  Mounting: \<^verbatim>\<open>fat16_resolve\<close> and \<^verbatim>\<open>disk_search_and_init\<close> on a disk with a FAT16 boot sector end with the file
  system mounted, its header and root directory read from the disk and its streams allocated.
\<close>

section \<open>The boot sector\<close>

text \<open>A disk image with a FAT16 boot sector and a root directory of at most a page that ends with a null entry.\<close>

definition boot_header :: "(nat \<Rightarrow> u8) \<Rightarrow> fat_header" where
  "boot_header img = decode_header (img_bytes img 0 62)"

definition root_sector :: "fat_header \<Rightarrow> int" where
  "root_sector bh = uint (fat_copies (header_primary bh)) * uint (sectors_per_fat (header_primary bh)) + uint (reserved_sectors (header_primary bh))"

definition fat16_image :: "(nat \<Rightarrow> u8) \<Rightarrow> nat \<Rightarrow> bool" where
  "fat16_image img n \<longleftrightarrow> (let bh = boot_header img in
     extended_boot_signature (header_extended bh) = 0x29 \<and> 0 < sectors_per_cluster (header_primary bh) \<and>
     0 < root_dir_entries (header_primary bh) \<and> root_dir_entries (header_primary bh) \<le> 128 \<and>
     root_sector bh * 512 + 4096 < 2 ^ 31 \<and> root_sector bh * 512 + 32 * (int n + 1) < 2 ^ 31 \<and>
     img (nat (root_sector bh * 512) + 32 * n) = 0)"

lemma get_disk_stream_fresh:
  assumes "heap_ok (kernel_heap s)" "0 < free_blocks (kernel_heap s)"
  shows "\<exists>p h m. get_disk_stream s 0 =
      Inr (p, s\<lparr>kernel_heap := h, kmem := m, streams := (streams s)(p \<mapsto> \<lparr>pos = 0, stream_disk = TheDisk\<rparr>)\<rparr>) \<and>
    fresh_block (kernel_heap s) p h"
proof -
  obtain p h m where "kzalloc s 8 = Inr (p, s\<lparr>kernel_heap := h, kmem := m\<rparr>)" "fresh_block (kernel_heap s) p h"
    using kzalloc_small [OF assms, of 8] by auto
  then show ?thesis using fresh_blockD(1) by (intro exI [of _ p] exI [of _ h] exI [of _ m]) (simp add: get_disk_stream_def disk_get_def)
qed

lemma total_items_loop_ends:
  assumes "ata_ok dev img k"
  shows "streams s p = Some st \<Longrightarrow> stream_disk st = TheDisk \<Longrightarrow> 0 \<le> pos st \<Longrightarrow> pos st + 32 * (int n + 1) < 2 ^ 31 \<Longrightarrow>
    img (nat (pos st) + 32 * n) = 0 \<Longrightarrow> n < fuel \<Longrightarrow> length entry = 32 \<Longrightarrow> 0 \<le> count \<Longrightarrow>
    \<exists>c st' tr. total_items_loop dev s p entry count fuel = Inr (c, s\<lparr>streams := (streams s)(p \<mapsto> st'), io_trace := tr\<rparr>) \<and>
      stream_disk st' = TheDisk \<and> 0 \<le> c"
proof (induction n arbitrary: s st entry count fuel)
  case 0
  obtain tr where r: "disk_stream_read dev s p entry 0 32 =
      Inr (0, img_bytes img (nat (pos st)) 32, s\<lparr>streams := (streams s)(p \<mapsto> st\<lparr>pos := pos st + 32\<rparr>), io_trace := tr\<rparr>)"
    using disk_stream_read_result [OF assms 0(1-3), of 32 0 entry] 0 by auto
  have "img_bytes img (nat (pos st)) 32 ! 0 = 0" using 0 by simp
  then have "total_items_loop dev s p entry count fuel =
      Inr (count, s\<lparr>streams := (streams s)(p \<mapsto> st\<lparr>pos := pos st + 32\<rparr>), io_trace := tr\<rparr>)"
    using r 0 by (subst total_items_loop.simps) simp
  moreover have "stream_disk (st\<lparr>pos := pos st + 32\<rparr>) = TheDisk" using 0 by simp
  ultimately show ?case using 0(8) by blast
next
  case (Suc n)
  let ?st = "st\<lparr>pos := pos st + 32\<rparr>"
  obtain tr where r: "disk_stream_read dev s p entry 0 32 =
      Inr (0, img_bytes img (nat (pos st)) 32, s\<lparr>streams := (streams s)(p \<mapsto> ?st), io_trace := tr\<rparr>)"
    using disk_stream_read_result [OF assms Suc(2-4), of 32 0 entry] Suc.prems by auto
  let ?s = "s\<lparr>streams := (streams s)(p \<mapsto> ?st), io_trace := tr\<rparr>" and ?e = "img_bytes img (nat (pos st)) 32"
  have n: "nat (pos ?st) + 32 * n = nat (pos st) + 32 * Suc n" using Suc.prems(3) by simp
  have rest: "\<exists>c st' tr'. total_items_loop dev ?s p ?e c0 (fuel - 1) =
      Inr (c, s\<lparr>streams := (streams s)(p \<mapsto> st'), io_trace := tr'\<rparr>) \<and> stream_disk st' = TheDisk \<and> 0 \<le> c" if "0 \<le> c0" for c0
  proof -
    have "?s\<lparr>streams := (streams ?s)(p \<mapsto> st'), io_trace := tr'\<rparr> = s\<lparr>streams := (streams s)(p \<mapsto> st'), io_trace := tr'\<rparr>" for st' tr'
      by simp
    moreover have "\<exists>c st' tr'. total_items_loop dev ?s p ?e c0 (fuel - 1) =
        Inr (c, ?s\<lparr>streams := (streams ?s)(p \<mapsto> st'), io_trace := tr'\<rparr>) \<and> stream_disk st' = TheDisk \<and> 0 \<le> c"
      by (rule Suc.IH [of _ ?st]) (use Suc.prems that n in \<open>auto simp: add.assoc\<close>)
    ultimately show ?thesis by simp
  qed
  show ?case
  proof (cases "?e ! 0 = 0")
    case True
    then have "total_items_loop dev s p entry count fuel = Inr (count, ?s)"
      using r Suc.prems by (subst total_items_loop.simps) simp
    moreover have "stream_disk ?st = TheDisk" using Suc.prems by simp
    ultimately show ?thesis using Suc.prems(8) by blast
  next
    case False
    then show ?thesis using r Suc.prems rest [of count] rest [of "count + 1"]
      by (subst total_items_loop.simps) (cases "?e ! 0 = 0xE5", simp_all)
  qed
qed

lemma root_sector_bounds: "0 \<le> root_sector bh" "root_sector bh < 2147483648"
proof -
  let ?p = "header_primary bh"
  have "uint (fat_copies ?p) * uint (sectors_per_fat ?p) \<le> 255 * 65535"
    using uint_bounded [of "fat_copies ?p"] uint_bounded [of "sectors_per_fat ?p"] by (intro mult_mono) auto
  then show "root_sector bh < 2147483648" using uint_bounded [of "reserved_sectors ?p"] by (simp add: root_sector_def)
  show "0 \<le> root_sector bh" by (simp add: root_sector_def)
qed

lemma total_items_result:
  assumes "ata_ok dev img k" "fat_privates s (fs_private (disk_dev s)) = Some priv" "sector_size (disk_dev s) = 512"
    "streams s (directory_stream priv) = Some st" "stream_disk st = TheDisk" "fat16_image img n" "n < 2 ^ 26"
  shows "\<exists>c st' tr. fat16_get_total_items_for_directory dev s (of_int (root_sector (boot_header img))) =
      Inr (c, s\<lparr>streams := (streams s)(directory_stream priv \<mapsto> st'), io_trace := tr\<rparr>) \<and> stream_disk st' = TheDisk \<and> 0 \<le> c"
proof -
  let ?R = "root_sector (boot_header img)" and ?ds = "directory_stream priv"
  let ?st = "st\<lparr>pos := ?R * 512\<rparr>"
  let ?s = "s\<lparr>streams := (streams s)(?ds \<mapsto> ?st)\<rparr>"
  have seek: "disk_stream_seek s ?ds (?R * 512) = Inr (0, ?s)" using assms(4) by (simp add: disk_stream_seek_def)
  have R: "sint (of_int ?R :: u32) = ?R" using root_sector_bounds by (simp add: sint_of_int_small)
  have "\<exists>c st' tr. total_items_loop dev ?s ?ds (replicate 32 0) 0 (2 ^ 26) =
      Inr (c, ?s\<lparr>streams := (streams ?s)(?ds \<mapsto> st'), io_trace := tr\<rparr>) \<and> stream_disk st' = TheDisk \<and> 0 \<le> c"
    using assms(5-7) root_sector_bounds by (intro total_items_loop_ends [OF assms(1), of _ _ ?st n]) (auto simp: fat16_image_def Let_def)
  moreover have "?s\<lparr>streams := (streams ?s)(?ds \<mapsto> st'), io_trace := tr\<rparr> = s\<lparr>streams := (streams s)(?ds \<mapsto> st'), io_trace := tr\<rparr>" for st' tr
    by simp
  ultimately show ?thesis using seek assms(2,3)
    by (simp add: fat16_get_total_items_for_directory_def get_private_def fat16_sector_to_absolute_pos_def R)
qed

lemma unat_of_int_small: "0 \<le> k \<Longrightarrow> k < 4294967296 \<Longrightarrow> unat (of_int k :: u32) = nat k"
  by (simp add: unat_eq_nat_uint uint_word_of_int)

lemma root_directory_read:
  assumes "ata_ok dev img k" "fat_privates s fp = Some priv" "fs_private (disk_dev s) = fp" "sector_size (disk_dev s) = 512"
    "header priv = boot_header img" "streams s (directory_stream priv) = Some st" "stream_disk st = TheDisk" "directory_stream priv \<noteq> 0"
    "fat16_image img n" "n < 2 ^ 26" "heap_ok (kernel_heap s)" "0 < free_blocks (kernel_heap s)"
  shows "\<exists>h m tr st' db d. fat16_get_root_directory dev s fp =
      Inr (0, s\<lparr>kernel_heap := h, kmem := m, streams := (streams s)(directory_stream priv \<mapsto> st'), io_trace := tr,
        fat_privates := (fat_privates s)(fp \<mapsto> priv\<lparr>root_directory := d\<rparr>), dir_entry_bufs := db\<rparr>) \<and> stream_disk st' = TheDisk \<and>
    fresh_block (kernel_heap s) (dir_entry d) h \<and> 0 \<le> dir_total d \<and> dir_sector d = root_sector (boot_header img) \<and> 0 \<le> dir_end_sector d"
proof -
  let ?R = "root_sector (boot_header img)" and ?ds = "directory_stream priv"
  let ?sz = "uint (root_dir_entries (header_primary (boot_header img))) * 32"
  have img: "root_dir_entries (header_primary (boot_header img)) > 0" "root_dir_entries (header_primary (boot_header img)) \<le> 128"
    "?R * 512 + 4096 < 2 ^ 31" using assms(9) by (auto simp: fat16_image_def Let_def)
  have sz: "0 < ?sz" "?sz \<le> 4096" using img(1,2) by (auto simp: word_less_def word_le_def)
  obtain c st1 tr1 where items: "fat16_get_total_items_for_directory dev s (of_int ?R) =
      Inr (c, s\<lparr>streams := (streams s)(?ds \<mapsto> st1), io_trace := tr1\<rparr>)" "stream_disk st1 = TheDisk" "0 \<le> c"
    using total_items_result [of dev img k s priv st n] assms by auto
  let ?s1 = "s\<lparr>streams := (streams s)(?ds \<mapsto> st1), io_trace := tr1\<rparr>"
  have u: "0 < unat (of_int ?sz :: u32)" "unat (of_int ?sz :: u32) \<le> 4096"
    using sz unat_of_int_small [of ?sz] by linarith+
  obtain p h m where alloc: "kzalloc ?s1 (of_int ?sz) = Inr (p, ?s1\<lparr>kernel_heap := h, kmem := m\<rparr>)" "fresh_block (kernel_heap s) p h"
    using kzalloc_small [OF _ _ u, of ?s1] assms(11,12) by auto
  let ?s2 = "?s1\<lparr>kernel_heap := h, kmem := m\<rparr>"
  obtain tr2 s3 where rd: "disk_stream_seek ?s2 ?ds (?R * 512) = Inr (0, s3)"
    "disk_stream_read dev s3 ?ds (replicate (nat ?sz) 0) 0 ?sz = Inr (0, img_bytes img (nat (?R * 512)) (nat ?sz),
      ?s2\<lparr>streams := (streams ?s2)(?ds \<mapsto> st1\<lparr>pos := ?R * 512 + ?sz\<rparr>), io_trace := tr2\<rparr>)"
    using seek_read [OF assms(1), of ?s2 ?ds st1 "?R * 512" ?sz 0 "replicate (nat ?sz) 0"] items(2) assms(8) sz img(3) root_sector_bounds
    by auto
  let ?d = "\<lparr>dir_entry = p, dir_total = c, dir_sector = ?R, dir_end_sector = ?R + ?sz sdiv 512\<rparr>"
  have "fat16_get_root_directory dev s fp = Inr (0, ?s2\<lparr>streams := (streams ?s2)(?ds \<mapsto> st1\<lparr>pos := ?R * 512 + ?sz\<rparr>), io_trace := tr2,
      dir_entry_bufs := (dir_entry_bufs s)(p \<mapsto> img_bytes img (nat (?R * 512)) (nat ?sz)),
      fat_privates := (fat_privates s)(fp \<mapsto> priv\<lparr>root_directory := ?d\<rparr>)\<rparr>)"
    using items(1) alloc(1) rd fresh_blockD(1) [OF alloc(2)] assms(2,4,5)
    by (simp add: fat16_get_root_directory_def root_sector_def Let_def fat16_sector_to_absolute_pos_def)
  then show ?thesis using items(2,3) alloc(2) root_sector_bounds sz
    by (intro exI [of _ h] exI [of _ m] exI [of _ tr2] exI [of _ "st1\<lparr>pos := ?R * 512 + ?sz\<rparr>"]
      exI [of _ "(dir_entry_bufs s)(p \<mapsto> img_bytes img (nat (?R * 512)) (nat ?sz))"] exI [of _ ?d])
      (simp add: sdiv_nonneg)
qed

text \<open>Only the heap, memory, the disk, its streams and the structures of the file system differ.\<close>

definition fs_only :: "'a fat_state_scheme \<Rightarrow> 'a fat_state_scheme \<Rightarrow> bool" where
  "fs_only s s' \<longleftrightarrow> s' = s\<lparr>kernel_heap := kernel_heap s', kmem := kmem s', io_trace := io_trace s', disk_dev := disk_dev s',
     streams := streams s', fat_privates := fat_privates s', dir_entry_bufs := dir_entry_bufs s'\<rparr>"

abbreviation (input) fresh_stream :: disk_stream where
  "fresh_stream \<equiv> \<lparr>pos = 0, stream_disk = TheDisk\<rparr>"

lemma init_private_result:
  assumes "fp \<noteq> 0" "disk_id (disk_dev s) = 0" "heap_ok (kernel_heap s)" "3 \<le> free_blocks (kernel_heap s)"
  shows "\<exists>c f d h m. fat16_init_private s fp =
      Inr (s\<lparr>kernel_heap := h, kmem := m, streams := (streams s)(c \<mapsto> fresh_stream, f \<mapsto> fresh_stream, d \<mapsto> fresh_stream),
        fat_privates := (fat_privates s)(fp \<mapsto> \<lparr>header = zero_header,
          root_directory = \<lparr>dir_entry = 0, dir_total = 0, dir_sector = 0, dir_end_sector = 0\<rparr>,
          cluster_read_stream = c, fat_read_stream = f, directory_stream = d\<rparr>)\<rparr>) \<and>
    heap_ok h \<and> free_blocks h = free_blocks (kernel_heap s) - 3 \<and> distinct [c, f, d] \<and> 0 \<notin> {c, f, d} \<and>
    (\<forall>q \<in> {c, f, d}. live h q \<noteq> None) \<and> (\<forall>q. live (kernel_heap s) q \<noteq> None \<longrightarrow> live h q \<noteq> None)"
proof -
  obtain c h1 m1 where c: "get_disk_stream s 0 = Inr (c, s\<lparr>kernel_heap := h1, kmem := m1, streams := (streams s)(c \<mapsto> fresh_stream)\<rparr>)"
    "fresh_block (kernel_heap s) c h1" using get_disk_stream_fresh [OF assms(3)] assms(4) by auto
  let ?s1 = "s\<lparr>kernel_heap := h1, kmem := m1, streams := (streams s)(c \<mapsto> fresh_stream)\<rparr>"
  note c' = fresh_blockD [OF c(2)]
  obtain f h2 m2 where f: "get_disk_stream ?s1 0 = Inr (f, ?s1\<lparr>kernel_heap := h2, kmem := m2, streams := (streams ?s1)(f \<mapsto> fresh_stream)\<rparr>)"
    "fresh_block h1 f h2" using get_disk_stream_fresh [of ?s1] assms(4) c'(3,4) by auto
  let ?s2 = "?s1\<lparr>kernel_heap := h2, kmem := m2, streams := (streams ?s1)(f \<mapsto> fresh_stream)\<rparr>"
  note f' = fresh_blockD [OF f(2)]
  obtain d h3 m3 where d: "get_disk_stream ?s2 0 = Inr (d, ?s2\<lparr>kernel_heap := h3, kmem := m3, streams := (streams ?s2)(d \<mapsto> fresh_stream)\<rparr>)"
    "fresh_block h2 d h3" using get_disk_stream_fresh [of ?s2] assms(4) c'(4) f'(3,4) by auto
  note d' = fresh_blockD [OF d(2)]
  have ne: "c \<noteq> f" "c \<noteq> d" "f \<noteq> d" "live h3 c \<noteq> None" "live h3 f \<noteq> None" "live h3 d \<noteq> None"
    using f'(9) [OF c'(6)] d'(9) [of c] d'(9) [OF f'(6)] f'(8) [OF c'(6)] d'(8) [of c] d'(8) [OF f'(6)] c'(6) f'(6) d'(6) by auto
  have old: "live h3 q \<noteq> None" if "live (kernel_heap s) q \<noteq> None" for q
    using c'(8) [OF that] f'(8) [of q] d'(8) [of q] that by simp
  show ?thesis
    using c(1) f(1) d(1) assms(1,2,4) c'(1,4) f'(1,4) d'(1,3,4) ne old
    by (intro exI [of _ c] exI [of _ f] exI [of _ d] exI [of _ h3] exI [of _ m3]) (simp add: fat16_init_private_def)
qed

lemma resolve_body_result:
  assumes "ata_ok dev img k" "st \<noteq> 0" "streams s st = Some fresh_stream" "fat_privates s fp = Some priv" "fs_private (disk_dev s) = fp"
    "sector_size (disk_dev s) = 512" "streams s (directory_stream priv) = Some x" "stream_disk x = TheDisk" "directory_stream priv \<noteq> 0"
    "st \<noteq> directory_stream priv" "fat16_image img n" "n < 2 ^ 26" "heap_ok (kernel_heap s)" "0 < free_blocks (kernel_heap s)"
  shows "\<exists>h m tr st1 st2 db d. resolve_body dev s fp st =
      Inr (0, s\<lparr>kernel_heap := h, kmem := m, io_trace := tr, disk_dev := (disk_dev s)\<lparr>filesystem := Fat16Filesystem\<rparr>,
        streams := (streams s)(st \<mapsto> st1, directory_stream priv \<mapsto> st2),
        fat_privates := (fat_privates s)(fp \<mapsto> priv\<lparr>header := boot_header img, root_directory := d\<rparr>), dir_entry_bufs := db\<rparr>) \<and>
    stream_disk st2 = TheDisk \<and> fresh_block (kernel_heap s) (dir_entry d) h \<and> 0 \<le> dir_total d \<and>
    dir_sector d = root_sector (boot_header img) \<and> 0 \<le> dir_end_sector d"
proof -
  let ?st1 = "fresh_stream\<lparr>pos := 62\<rparr>" and ?priv = "priv\<lparr>header := boot_header img\<rparr>"
  obtain tr where rd: "disk_stream_read dev s st (replicate 62 0) 0 62 =
      Inr (0, img_bytes img 0 62, s\<lparr>streams := (streams s)(st \<mapsto> ?st1), io_trace := tr\<rparr>)"
    using disk_stream_read_result [OF assms(1,3), of 62 0 "replicate 62 0"] by auto
  let ?s1 = "s\<lparr>streams := (streams s)(st \<mapsto> ?st1), io_trace := tr, fat_privates := (fat_privates s)(fp \<mapsto> ?priv)\<rparr>"
  have "\<exists>h m tr st' db d. fat16_get_root_directory dev ?s1 fp =
      Inr (0, ?s1\<lparr>kernel_heap := h, kmem := m, streams := (streams ?s1)(directory_stream ?priv \<mapsto> st'), io_trace := tr,
        fat_privates := (fat_privates ?s1)(fp \<mapsto> ?priv\<lparr>root_directory := d\<rparr>), dir_entry_bufs := db\<rparr>) \<and> stream_disk st' = TheDisk \<and>
      fresh_block (kernel_heap ?s1) (dir_entry d) h \<and> 0 \<le> dir_total d \<and> dir_sector d = root_sector (boot_header img) \<and> 0 \<le> dir_end_sector d"
    by (rule root_directory_read [OF assms(1), of _ _ _ x n]) (use assms in auto)
  then obtain h m tr2 st2 db d where root: "fat16_get_root_directory dev ?s1 fp =
      Inr (0, ?s1\<lparr>kernel_heap := h, kmem := m, streams := (streams ?s1)(directory_stream priv \<mapsto> st2), io_trace := tr2,
        fat_privates := (fat_privates ?s1)(fp \<mapsto> ?priv\<lparr>root_directory := d\<rparr>), dir_entry_bufs := db\<rparr>)" "stream_disk st2 = TheDisk"
      "fresh_block (kernel_heap s) (dir_entry d) h" "0 \<le> dir_total d" "dir_sector d = root_sector (boot_header img)" "0 \<le> dir_end_sector d"
    by (elim exE conjE) (simp del: fun_upd_apply)
  have "extended_boot_signature (header_extended (boot_header img)) = 0x29" using assms(11) by (simp add: fat16_image_def Let_def)
  then have "resolve_body dev s fp st =
      Inr (0, s\<lparr>kernel_heap := h, kmem := m, io_trace := tr2, disk_dev := (disk_dev s)\<lparr>filesystem := Fat16Filesystem\<rparr>,
        streams := (streams s)(st \<mapsto> ?st1, directory_stream priv \<mapsto> st2),
        fat_privates := (fat_privates s)(fp \<mapsto> ?priv\<lparr>root_directory := d\<rparr>), dir_entry_bufs := db\<rparr>)"
    using rd root(1) assms(2,4) by (simp add: resolve_body_def Let_def boot_header_def)
  then show ?thesis using root(2-6) by blast
qed

lemma fat16_resolve_mounts:
  assumes "ata_ok dev img k" "fat16_image img n" "n < 2 ^ 26" "disk_id (disk_dev s) = 0" "sector_size (disk_dev s) = 512"
    "heap_ok (kernel_heap s)" "6 \<le> free_blocks (kernel_heap s)"
  shows "\<exists>s' priv. fat16_resolve dev s = Inr (0, s') \<and> fs_only s s' \<and> mounted s' priv \<and> header priv = boot_header img \<and>
    dir_sector (root_directory priv) = root_sector (boot_header img) \<and> heap_ok (kernel_heap s') \<and>
    free_blocks (kernel_heap s) - 5 \<le> free_blocks (kernel_heap s')"
proof -
  obtain fp h0 m0 where fp: "kzalloc s 92 = Inr (fp, s\<lparr>kernel_heap := h0, kmem := m0\<rparr>)" "fresh_block (kernel_heap s) fp h0"
    using kzalloc_small [of s 92] assms(6,7) by auto
  note fp' = fresh_blockD [OF fp(2)]
  let ?s0 = "s\<lparr>kernel_heap := h0, kmem := m0\<rparr>"
  have fb0: "5 \<le> free_blocks h0" using fp'(4) assms(7) by linarith
  obtain c f d h1 m1 where init: "fat16_init_private ?s0 fp = Inr (?s0\<lparr>kernel_heap := h1, kmem := m1,
        streams := (streams ?s0)(c \<mapsto> fresh_stream, f \<mapsto> fresh_stream, d \<mapsto> fresh_stream),
        fat_privates := (fat_privates ?s0)(fp \<mapsto> \<lparr>header = zero_header,
          root_directory = \<lparr>dir_entry = 0, dir_total = 0, dir_sector = 0, dir_end_sector = 0\<rparr>,
          cluster_read_stream = c, fat_read_stream = f, directory_stream = d\<rparr>)\<rparr>)"
    and h1: "heap_ok h1" "free_blocks h1 = free_blocks h0 - 3" and nz: "distinct [c, f, d]" "0 \<notin> {c, f, d}"
    and lv: "live h1 c \<noteq> None" "live h1 f \<noteq> None" "live h1 d \<noteq> None"
    using init_private_result [of fp ?s0] fp'(1,3) fb0 assms(4) by auto
  let ?priv = "\<lparr>header = zero_header, root_directory = \<lparr>dir_entry = 0, dir_total = 0, dir_sector = 0, dir_end_sector = 0\<rparr>,
    cluster_read_stream = c, fat_read_stream = f, directory_stream = d\<rparr>"
  let ?s2 = "?s0\<lparr>kernel_heap := h1, kmem := m1, streams := (streams ?s0)(c \<mapsto> fresh_stream, f \<mapsto> fresh_stream, d \<mapsto> fresh_stream),
    fat_privates := (fat_privates ?s0)(fp \<mapsto> ?priv), disk_dev := (disk_dev s)\<lparr>fs_private := fp\<rparr>\<rparr>"
  have fb1: "2 \<le> free_blocks h1" using fb0 h1(2) by linarith
  obtain st h2 m2 where st: "get_disk_stream ?s2 0 = Inr (st, ?s2\<lparr>kernel_heap := h2, kmem := m2, streams := (streams ?s2)(st \<mapsto> fresh_stream)\<rparr>)"
    "fresh_block h1 st h2"
    using get_disk_stream_fresh [of ?s2] h1(1) fb1 by auto
  note st' = fresh_blockD [OF st(2)]
  let ?s3 = "?s2\<lparr>kernel_heap := h2, kmem := m2, streams := (streams ?s2)(st \<mapsto> fresh_stream)\<rparr>"
  have fb2: "0 < free_blocks h2" using fb1 st'(4) by linarith
  have ne: "st \<noteq> c" "st \<noteq> f" "st \<noteq> d" using st'(9) lv by auto
  have "\<exists>h m tr st1 st2 db rd. resolve_body dev ?s3 fp st =
      Inr (0, ?s3\<lparr>kernel_heap := h, kmem := m, io_trace := tr, disk_dev := (disk_dev ?s3)\<lparr>filesystem := Fat16Filesystem\<rparr>,
        streams := (streams ?s3)(st \<mapsto> st1, directory_stream ?priv \<mapsto> st2),
        fat_privates := (fat_privates ?s3)(fp \<mapsto> ?priv\<lparr>header := boot_header img, root_directory := rd\<rparr>), dir_entry_bufs := db\<rparr>) \<and>
      stream_disk st2 = TheDisk \<and> fresh_block (kernel_heap ?s3) (dir_entry rd) h \<and> 0 \<le> dir_total rd \<and>
      dir_sector rd = root_sector (boot_header img) \<and> 0 \<le> dir_end_sector rd"
    by (rule resolve_body_result [OF assms(1) st'(1), of _ _ _ fresh_stream n])
      (use assms(2-5) fb2 st'(3) nz ne in auto)
  then obtain h m tr st1 st2 db rd where body: "resolve_body dev ?s3 fp st =
      Inr (0, ?s3\<lparr>kernel_heap := h, kmem := m, io_trace := tr, disk_dev := (disk_dev s)\<lparr>fs_private := fp, filesystem := Fat16Filesystem\<rparr>,
        streams := (streams ?s3)(st \<mapsto> st1, d \<mapsto> st2),
        fat_privates := (fat_privates ?s3)(fp \<mapsto> ?priv\<lparr>header := boot_header img, root_directory := rd\<rparr>), dir_entry_bufs := db\<rparr>)"
    and b: "stream_disk st2 = TheDisk" "fresh_block h2 (dir_entry rd) h" "dir_sector rd = root_sector (boot_header img)" "0 \<le> dir_end_sector rd"
    by (elim exE conjE) (simp del: fun_upd_apply)
  let ?s4 = "?s3\<lparr>kernel_heap := h, kmem := m, io_trace := tr, disk_dev := (disk_dev s)\<lparr>fs_private := fp, filesystem := Fat16Filesystem\<rparr>,
        streams := (streams ?s3)(st \<mapsto> st1, d \<mapsto> st2),
        fat_privates := (fat_privates ?s3)(fp \<mapsto> ?priv\<lparr>header := boot_header img, root_directory := rd\<rparr>), dir_entry_bufs := db\<rparr>"
  note b' = fresh_blockD [OF b(2)]
  have "live h st \<noteq> None" using b'(8) [OF st'(6)] st'(6) by simp
  then obtain h' where h': "kfree ?s4 st = Inr (0, ?s4\<lparr>kernel_heap := h'\<rparr>)" "heap_ok h'" "free_blocks h < free_blocks h'"
    using kfree_live [of ?s4 st] b'(3) by auto
  let ?s5 = "?s4\<lparr>kernel_heap := h', streams := (streams ?s4)(st := None)\<rparr>"
  have res: "fat16_resolve dev s = Inr (0, ?s5)"
    using fp(1) init st(1) body h'(1) st'(1) assms(4) by (simp add: fat16_resolve_def set_fs_private_def disk_stream_close_def)
  have "mounted ?s5 (?priv\<lparr>header := boot_header img, root_directory := rd\<rparr>)"
    using fp'(1) nz ne b assms(2,5) by (auto simp: mounted_def fat16_image_def Let_def)
  moreover have "fs_only s ?s5" by (simp add: fs_only_def)
  moreover have "free_blocks (kernel_heap s) - 5 \<le> free_blocks h'"
    using h'(3) b'(4) st'(4) h1(2) fp'(4) assms(7) by linarith
  ultimately show ?thesis using res b(3) h'(2)
    by (intro exI [of _ ?s5] exI [of _ "?priv\<lparr>header := boot_header img, root_directory := rd\<rparr>"]) simp
qed

section \<open>The disk at start-up\<close>

lemma fs_init_eq:
  "fs_init s = Inr (s\<lparr>file_descriptors := replicate 512 0, filesystems := Fat16Filesystem # replicate 11 NoFilesystem\<rparr>)"
proof -
  have "replicate 12 NoFilesystem = NoFilesystem # replicate 11 NoFilesystem" by (simp flip: replicate_Suc)
  then show ?thesis by (simp add: fs_init_def fs_static_load_def fs_insert_filesystem_def get_free_fs_slot_def)
qed

lemma disk_search_mounts:
  assumes "ata_ok dev img k" "fat16_image img n" "n < 2 ^ 26" "filesystems s = Fat16Filesystem # fs"
    "heap_ok (kernel_heap s)" "6 \<le> free_blocks (kernel_heap s)"
  shows "\<exists>s' priv. disk_search_and_init dev s = Inr s' \<and> fs_only s s' \<and> mounted s' priv \<and> header priv = boot_header img \<and>
    dir_sector (root_directory priv) = root_sector (boot_header img) \<and> filesystem (disk_dev s') = Fat16Filesystem \<and>
    heap_ok (kernel_heap s') \<and> free_blocks (kernel_heap s) - 5 \<le> free_blocks (kernel_heap s')"
proof -
  let ?s = "s\<lparr>disk_dev := \<lparr>dtype = REAL, disk_id = 0, sector_size = DISK_SECTOR_SIZE, filesystem = NoFilesystem, fs_private = 0\<rparr>\<rparr>"
  obtain s' priv where r: "fat16_resolve dev ?s = Inr (0, s')" "fs_only ?s s'" "mounted s' priv" "header priv = boot_header img"
    "dir_sector (root_directory priv) = root_sector (boot_header img)" "heap_ok (kernel_heap s')"
    "free_blocks (kernel_heap s) - 5 \<le> free_blocks (kernel_heap s')"
    using fat16_resolve_mounts [OF assms(1-3), of ?s] assms(5,6) by auto
  let ?s' = "s'\<lparr>disk_dev := (disk_dev s')\<lparr>filesystem := Fat16Filesystem\<rparr>\<rparr>"
  have "disk_search_and_init dev s = Inr ?s'"
    using r(1) assms(4) by (simp add: disk_search_and_init_def fs_resolve_def fs_call_resolve_def)
  moreover have "fs_only s ?s'" using r(2) by (cases s') (simp add: fs_only_def)
  moreover have "mounted ?s' priv" using r(3) by (simp add: mounted_def)
  ultimately show ?thesis using r(4-7) by (intro exI [of _ ?s'] exI [of _ priv]) simp
qed

end
