(* ===== verification/Terminal.thy ===== *)
theory Terminal
  imports Vfs
begin

text \<open>
  The terminal \<^verbatim>\<open>src/src/print/print.c\<close>. The frame buffer is the memory at 0xB8000, so that a write
  outside the screen is a write to other memory. \<^verbatim>\<open>char\<close> is signed: a character is sign extended
  before it is combined with its color.
\<close>

section \<open>Model\<close>

record terminal_state = vfs_state +
  terminal_row :: u16
  terminal_col :: u16

abbreviation (input) VGA_WIDTH :: int where "VGA_WIDTH \<equiv> 80"
abbreviation (input) VGA_HEIGHT :: int where "VGA_HEIGHT \<equiv> 20"
abbreviation (input) BACKSPACE_ASCII_CHAR :: u8 where "BACKSPACE_ASCII_CHAR \<equiv> 0x08"
abbreviation (input) VIDEO_MEM :: u32 where "VIDEO_MEM \<equiv> 0xB8000"

definition store16 :: "mem \<Rightarrow> u32 \<Rightarrow> u16 \<Rightarrow> mem" where
  "store16 m a v = m(a := ucast v, a + 1 := ucast (drop_bit 8 v))"

definition load16 :: "mem \<Rightarrow> u32 \<Rightarrow> u16" where
  "load16 m a = ucast (m a) OR push_bit 8 (ucast (m (a + 1)))"

definition terminal_make_char :: "u8 \<Rightarrow> u8 \<Rightarrow> u16" where
  "terminal_make_char c color = push_bit 8 (scast color) OR scast c"

definition video_addr :: "int \<Rightarrow> u32" where
  "video_addr i = VIDEO_MEM + 2 * of_int i"

definition terminal_put_char :: "'a terminal_state_scheme \<Rightarrow> int \<Rightarrow> int \<Rightarrow> u8 \<Rightarrow> u8 \<Rightarrow> 'a terminal_state_scheme" where
  "terminal_put_char s row col c color =
     s\<lparr>kmem := store16 (kmem s) (video_addr (row * VGA_WIDTH + col)) (terminal_make_char c color)\<rparr>"

text \<open>The end of \<^verbatim>\<open>terminal_write_char\<close>, reached by every character but line feed and backspace.\<close>

definition write_visible :: "'a terminal_state_scheme \<Rightarrow> u8 \<Rightarrow> u8 \<Rightarrow> 'a terminal_state_scheme" where
  "write_visible s c color =
     (let s = terminal_put_char s (uint (terminal_row s)) (uint (terminal_col s)) c color;
          s = s\<lparr>terminal_col := terminal_col s + 1\<rparr> in
      if uint (terminal_col s) \<ge> VGA_WIDTH
      then s\<lparr>terminal_row := terminal_row s + 1, terminal_col := 0\<rparr>
      else s)"

text \<open>
  \<^verbatim>\<open>terminal_backspace\<close> and \<^verbatim>\<open>terminal_write_char\<close> call each other; the call in \<^verbatim>\<open>terminal_backspace\<close>
  writes a blank and so takes the last branch of \<^verbatim>\<open>terminal_write_char\<close>.
\<close>

definition terminal_backspace :: "'a terminal_state_scheme \<Rightarrow> 'a terminal_state_scheme" where
  "terminal_backspace s =
     (if terminal_row s = 0 \<and> terminal_col s = 0 then s
      else
        let s = (if terminal_col s = 0 then s\<lparr>terminal_row := terminal_row s - 1, terminal_col := 80\<rparr> else s);
            s = write_visible (s\<lparr>terminal_col := terminal_col s - 1\<rparr>) 32 15 in
        s\<lparr>terminal_col := terminal_col s - 1\<rparr>)"

definition terminal_write_char :: "'a terminal_state_scheme \<Rightarrow> u8 \<Rightarrow> u8 \<Rightarrow> 'a terminal_state_scheme" where
  "terminal_write_char s c color =
     (if c = 10 then s\<lparr>terminal_row := terminal_row s + 1, terminal_col := 0\<rparr>
      else if c = BACKSPACE_ASCII_CHAR then terminal_backspace s
      else write_visible s c color)"

function init_col_loop :: "'a terminal_state_scheme \<Rightarrow> int \<Rightarrow> int \<Rightarrow> 'a terminal_state_scheme" where
  "init_col_loop s row col =
     (if col < VGA_WIDTH then init_col_loop (terminal_put_char s row col 32 0) row (col + 1) else s)"
  by pat_completeness auto
termination
  by (relation "measure (\<lambda>(s, row, col). nat (80 - col))") auto

declare init_col_loop.simps [simp del]

function init_row_loop :: "'a terminal_state_scheme \<Rightarrow> int \<Rightarrow> 'a terminal_state_scheme" where
  "init_row_loop s row =
     (if row < VGA_HEIGHT then init_row_loop (init_col_loop s row 0) (row + 1) else s)"
  by pat_completeness auto
termination
  by (relation "measure (\<lambda>(s, row). nat (20 - row))") auto

declare init_row_loop.simps [simp del]

definition terminal_initialize :: "'a terminal_state_scheme \<Rightarrow> 'a terminal_state_scheme" where
  "terminal_initialize s = init_row_loop s 0"

fun print_loop :: "'a terminal_state_scheme \<Rightarrow> u8 list \<Rightarrow> 'a terminal_state_scheme" where
  "print_loop s [] = s"
| "print_loop s (c # cs) = print_loop (terminal_write_char s c 15) cs"

definition print :: "'a terminal_state_scheme \<Rightarrow> u8 list \<Rightarrow> 'a terminal_state_scheme outcome" where
  "print s str = bind_r (strlen str) (\<lambda>len. Inr (print_loop s (take (nat len) str)))"


section \<open>Cursor and screen\<close>

definition cursor :: "'a terminal_state_scheme \<Rightarrow> nat" where
  "cursor s = 80 * unat (terminal_row s) + unat (terminal_col s)"

lemma load_store16 [simp]: "load16 (store16 m a v) a = v"
proof -
  have "(a :: u32) + 1 \<noteq> a" by simp
  moreover have "(ucast (ucast v :: u8) :: u16) OR push_bit 8 (ucast (ucast (drop_bit 8 v) :: u8)) = v"
    by (rule bit_word_eqI) (auto simp: bit_simps not_less)
  ultimately show ?thesis by (simp add: load16_def store16_def)
qed

lemma unat_add_1: "unat w < 65535 \<Longrightarrow> unat (w + 1 :: u16) = unat w + 1"
  by (subst unat_add_lem [THEN iffD1]) auto

text \<open>A printable character goes to the cell under the cursor and the cursor advances by one cell.\<close>

lemma write_plain_eq:
  assumes "c \<noteq> 10" "c \<noteq> 8" "unat (terminal_col s) < 80"
  shows "terminal_write_char s c color =
    (let m = store16 (kmem s) (video_addr (int (cursor s))) (terminal_make_char c color) in
     if unat (terminal_col s) = 79
     then s\<lparr>kmem := m, terminal_row := terminal_row s + 1, terminal_col := 0\<rparr>
     else s\<lparr>kmem := m, terminal_col := terminal_col s + 1\<rparr>)"
proof -
  have addr: "uint (terminal_row s) * 80 + uint (terminal_col s) = int (cursor s)"
    by (simp add: cursor_def)
  have col: "unat (terminal_col s + 1) = unat (terminal_col s) + 1" using assms(3) by (intro unat_add_1) simp
  have "80 \<le> uint (terminal_col s + 1) \<longleftrightarrow> unat (terminal_col s) = 79"
    using assms(3) by (simp only: uint_nat col) linarith
  then show ?thesis
    using assms(1,2) by (simp add: terminal_write_char_def write_visible_def terminal_put_char_def addr Let_def)
qed

lemma write_plain:
  assumes "c \<noteq> 10" "c \<noteq> 8" "unat (terminal_col s) < 80" "cursor s < 1600"
  shows "\<exists>r k. terminal_write_char s c color =
      s\<lparr>kmem := store16 (kmem s) (video_addr (int (cursor s))) (terminal_make_char c color), terminal_row := r, terminal_col := k\<rparr> \<and>
    80 * unat r + unat k = Suc (cursor s) \<and> unat k < 80"
proof -
  have row: "unat (terminal_row s) < 20" using assms(3,4) by (simp add: cursor_def)
  have col: "unat (terminal_col s + 1) = unat (terminal_col s) + 1" using assms(3) by (intro unat_add_1) simp
  have rowp: "unat (terminal_row s + 1) = unat (terminal_row s) + 1" using row by (intro unat_add_1) simp
  note w = write_plain_eq [OF assms(1-3)]
  show ?thesis
  proof (cases "unat (terminal_col s) = 79")
    case True
    then show ?thesis using rowp unfolding w
      by (intro exI [of _ "terminal_row s + 1"] exI [of _ 0]) (simp add: Let_def cursor_def)
  next
    case False
    then show ?thesis using col assms(3) unfolding w
      by (intro exI [of _ "terminal_row s"] exI [of _ "terminal_col s + 1"]) (simp add: Let_def cursor_def)
  qed
qed

text \<open>The memory from cell \<open>p\<close> of the screen holds the characters \<open>cs\<close>, the rest is as in \<open>m\<close>.\<close>

definition cells_from :: "mem \<Rightarrow> nat \<Rightarrow> u8 list \<Rightarrow> mem \<Rightarrow> bool" where
  "cells_from m p cs m' \<longleftrightarrow>
     (\<forall>i < length cs. load16 m' (video_addr (int (p + i))) = terminal_make_char (cs ! i) 15) \<and>
     (\<forall>a. \<not> (0xB8000 + 2 * p \<le> unat a \<and> unat a < 0xB8000 + 2 * (p + length cs)) \<longrightarrow> m' a = m a)"

lemma unat_video_addr: "i < 2000 \<Longrightarrow> unat (video_addr (int i)) = 0xB8000 + 2 * i"
proof -
  assume i: "i < 2000"
  have "video_addr (int i) = of_nat (0xB8000 + 2 * i)" by (simp add: video_addr_def)
  then show ?thesis using i by (simp only: unat_of_nat) simp
qed

lemma unat_video_addr_1: "i < 2000 \<Longrightarrow> unat (video_addr (int i) + 1) = 0xB8000 + 2 * i + 1"
proof -
  assume i: "i < 2000"
  have "video_addr (int i) + 1 = of_nat (0xB8000 + 2 * i + 1)" by (simp add: video_addr_def)
  then show ?thesis using i by (simp only: unat_of_nat) simp
qed

lemma store16_other: "a \<noteq> p \<Longrightarrow> a \<noteq> p + 1 \<Longrightarrow> store16 m p v a = m a"
  by (simp add: store16_def)

lemma cells_from_Cons:
  assumes "cells_from (store16 m (video_addr (int p)) (terminal_make_char c 15)) (Suc p) cs m'" "p + length cs < 1999"
  shows "cells_from m p (c # cs) m'"
proof -
  let ?v = "video_addr (int p)"
  have p: "unat ?v = 0xB8000 + 2 * p" "unat (?v + 1) = 0xB8000 + 2 * p + 1"
    using assms(2) by (simp_all add: unat_video_addr unat_video_addr_1)
  have keep: "m' a = store16 m ?v (terminal_make_char c 15) a"
    if "\<not> (0xB8000 + 2 * Suc p \<le> unat a \<and> unat a < 0xB8000 + 2 * (Suc p + length cs))" for a
    using assms(1) that unfolding cells_from_def by blast
  have "m' ?v = store16 m ?v (terminal_make_char c 15) ?v" by (rule keep) (simp add: p)
  moreover have "m' (?v + 1) = store16 m ?v (terminal_make_char c 15) (?v + 1)" by (rule keep) (simp add: p)
  ultimately have "load16 m' ?v = load16 (store16 m ?v (terminal_make_char c 15)) ?v"
    by (simp only: load16_def)
  then have first: "load16 m' ?v = terminal_make_char c 15" by simp
  have cells: "load16 m' (video_addr (int (p + i))) = terminal_make_char ((c # cs) ! i) 15" if "i < length (c # cs)" for i
    using assms(1) first that unfolding cells_from_def by (cases i) auto
  have "m' a = m a" if a: "\<not> (0xB8000 + 2 * p \<le> unat a \<and> unat a < 0xB8000 + 2 * (p + length (c # cs)))" for a
  proof -
    have "a \<noteq> ?v" "a \<noteq> ?v + 1" using a p by auto
    moreover have "m' a = store16 m ?v (terminal_make_char c 15) a" using a by (intro keep) auto
    ultimately show ?thesis by (simp add: store16_other)
  qed
  with cells show ?thesis unfolding cells_from_def by blast
qed

abbreviation (input) printable :: "u8 \<Rightarrow> bool" where "printable c \<equiv> c \<noteq> 10 \<and> c \<noteq> 8"

lemma print_loop_cells:
  assumes "\<forall>c\<in>set cs. printable c" "unat (terminal_col s) < 80" "cursor s + length cs \<le> 1600"
  shows "cells_from (kmem s) (cursor s) cs (kmem (print_loop s cs)) \<and>
    cursor (print_loop s cs) = cursor s + length cs \<and> unat (terminal_col (print_loop s cs)) < 80"
  using assms
proof (induction cs arbitrary: s)
  case Nil
  then show ?case by (simp add: cells_from_def)
next
  case (Cons c cs)
  have "c \<noteq> 10" "c \<noteq> 8" "cursor s < 1600" using Cons.prems by auto
  then obtain r k where w: "terminal_write_char s c 15 =
      s\<lparr>kmem := store16 (kmem s) (video_addr (int (cursor s))) (terminal_make_char c 15), terminal_row := r, terminal_col := k\<rparr>"
    and k: "80 * unat r + unat k = Suc (cursor s)" "unat k < 80"
    using write_plain [of c s 15] Cons.prems(2) by blast
  let ?s = "terminal_write_char s c 15"
  have cur: "cursor ?s = Suc (cursor s)" using k by (simp add: w cursor_def)
  have "cells_from (kmem ?s) (cursor ?s) cs (kmem (print_loop ?s cs)) \<and>
    cursor (print_loop ?s cs) = cursor ?s + length cs \<and> unat (terminal_col (print_loop ?s cs)) < 80"
    using Cons.prems cur k(2) by (intro Cons.IH) (auto simp: w)
  moreover have "kmem ?s = store16 (kmem s) (video_addr (int (cursor s))) (terminal_make_char c 15)" by (simp add: w)
  ultimately show ?case using cells_from_Cons [of "kmem s" "cursor s" c cs] Cons.prems(3) cur by simp
qed

lemma store16_twice [simp]: "store16 (store16 m a v) a w = store16 m a w"
  by (rule ext) (simp add: store16_def)

text \<open>Backspace away from the left edge blanks the cell before the cursor and moves the cursor there.\<close>

lemma backspace_plain:
  assumes "0 < unat (terminal_col s)" "unat (terminal_col s) < 80" "cursor s \<le> 1600"
  shows "terminal_backspace s =
    s\<lparr>kmem := store16 (kmem s) (video_addr (int (cursor s - 1))) (terminal_make_char 32 15), terminal_col := terminal_col s - 1\<rparr>"
proof -
  have nz: "terminal_col s \<noteq> 0" using assms(1) by auto
  have col: "unat (terminal_col s - 1) = unat (terminal_col s) - 1"
    using assms(1) by (simp add: unat_sub word_le_nat_alt)
  have bk: "terminal_col s - 1 + 1 = terminal_col s" by simp
  have addr: "uint (terminal_row s) * 80 + uint (terminal_col s - 1) = int (cursor s - 1)"
    using assms(1) by (simp only: uint_nat col) (simp add: cursor_def)
  have "\<not> 80 \<le> uint (terminal_col s)" using assms(2) by (simp only: uint_nat)
  then show ?thesis using nz
    by (simp add: terminal_backspace_def write_visible_def terminal_put_char_def addr Let_def)
qed

lemma backspace_at_edge:
  assumes "terminal_col s = 0" "0 < unat (terminal_row s)" "cursor s \<le> 1600"
  shows "terminal_backspace s =
    s\<lparr>kmem := store16 (kmem s) (video_addr (int (cursor s - 1))) (terminal_make_char 32 15), terminal_col := 65535\<rparr>"
proof -
  have nz: "terminal_row s \<noteq> 0" using assms(2) by auto
  have row: "unat (terminal_row s - 1) = unat (terminal_row s) - 1"
    using assms(2) by (simp add: unat_sub word_le_nat_alt)
  have addr: "uint (terminal_row s - 1) * 80 + 79 = int (cursor s - 1)"
    using assms(1,2) by (simp only: uint_nat row) (simp add: cursor_def)
  show ?thesis using nz assms(1)
    by (simp add: terminal_backspace_def write_visible_def terminal_put_char_def addr Let_def)
qed

text \<open>The part of the printing of a string that does not depend on the extension of the state.\<close>

lemma take_length_cstr: "take (length (cstr str)) str = cstr str"
  by (simp add: cstr_def takeWhile_eq_take [symmetric])

lemma print_cstr: "is_cstr str \<Longrightarrow> print s str = Inr (print_loop s (cstr str))"
  by (simp add: print_def strlen_eq take_length_cstr)

text \<open>Printing changes only the screen memory and the cursor.\<close>

definition screen_only :: "'a terminal_state_scheme \<Rightarrow> 'a terminal_state_scheme \<Rightarrow> bool" where
  "screen_only s s' \<longleftrightarrow> s' = s\<lparr>kmem := kmem s', terminal_row := terminal_row s', terminal_col := terminal_col s'\<rparr>"

lemma screen_onlyI: "screen_only s (s\<lparr>kmem := m, terminal_row := r, terminal_col := k\<rparr>)"
  by (simp add: screen_only_def)

lemma screen_only_refl: "screen_only s s"
  by (simp add: screen_only_def)

lemma screen_only_trans:
  assumes "screen_only s s'" "screen_only s' s''"
  shows "screen_only s s''"
proof -
  obtain m r k where 1: "s' = s\<lparr>kmem := m, terminal_row := r, terminal_col := k\<rparr>"
    using assms(1) unfolding screen_only_def by blast
  obtain m' r' k' where 2: "s'' = s'\<lparr>kmem := m', terminal_row := r', terminal_col := k'\<rparr>"
    using assms(2) unfolding screen_only_def by blast
  show ?thesis unfolding 2 1 by (simp add: screen_only_def)
qed

lemma write_visible_screen: "screen_only s (write_visible s c color)"
  by (simp add: write_visible_def terminal_put_char_def screen_only_def Let_def)

lemma backspace_screen: "screen_only s (terminal_backspace s)"
proof -
  have w: "screen_only s (s\<lparr>terminal_row := r, terminal_col := k\<rparr>)" for s :: "'a terminal_state_scheme" and r k
    by (simp add: screen_only_def)
  have c: "screen_only s (s\<lparr>terminal_col := k\<rparr>)" for s :: "'a terminal_state_scheme" and k
    by (simp add: screen_only_def)
  show ?thesis unfolding terminal_backspace_def Let_def
    by (auto intro: screen_only_refl screen_only_trans [OF screen_only_trans [OF w write_visible_screen] c]
      screen_only_trans [OF screen_only_trans [OF c write_visible_screen] c])
qed

lemma write_char_screen: "screen_only s (terminal_write_char s c color)"
  unfolding terminal_write_char_def
  by (auto intro: backspace_screen write_visible_screen) (simp add: screen_only_def)

lemma print_loop_screen: "screen_only s (print_loop s str)"
  by (induction str arbitrary: s) (auto intro: screen_only_refl screen_only_trans [OF write_char_screen])

lemma print_screen: "print s str = Inr s' \<Longrightarrow> screen_only s s'"
  by (auto simp: print_def bind_r_eq_Inr_iff print_loop_screen)

section \<open>A state for examples\<close>

definition demo_fat_state :: fat_state where
  "demo_fat_state = path_state.extend demo_path_state
     (fat_state.fields Map.empty Map.empty Map.empty Map.empty Map.empty)"

definition demo_vfs_state :: vfs_state where
  "demo_vfs_state = fat_state.extend demo_fat_state
     (vfs_state.fields (replicate 12 NoFilesystem) (replicate 512 0) Map.empty)"

definition demo_terminal_state :: terminal_state where
  "demo_terminal_state = vfs_state.extend demo_vfs_state (terminal_state.fields 1 0)"

lemma demo_terminal_cursor [simp]:
  "terminal_row demo_terminal_state = 1" "terminal_col demo_terminal_state = 0" "cursor demo_terminal_state = 80"
  by (simp_all add: demo_terminal_state_def cursor_def vfs_state.defs terminal_state.defs)

section \<open>Properties\<close>



text \<open>
  C28. Backspace: after a printable character was written before the last column of a row, backspace
  restores the cursor and leaves a blank in the cell of the character; nothing else differs
  from the state before the character.
\<close>

theorem backspace_undoes_write:
  assumes "c \<noteq> 10" "c \<noteq> 8" "unat (terminal_col s) < 79" "cursor s < 1600"
  shows "terminal_backspace (terminal_write_char s c color) =
    s\<lparr>kmem := store16 (kmem s) (video_addr (int (cursor s))) (terminal_make_char 32 15)\<rparr>"
proof -
  have w: "terminal_write_char s c color =
      s\<lparr>kmem := store16 (kmem s) (video_addr (int (cursor s))) (terminal_make_char c color), terminal_col := terminal_col s + 1\<rparr>"
    using write_plain_eq [OF assms(1,2), of s color] assms(3) by (simp add: Let_def)
  have col: "unat (terminal_col s + 1) = unat (terminal_col s) + 1" using assms(3) by (intro unat_add_1) simp
  then have "cursor (terminal_write_char s c color) = cursor s + 1" by (simp add: w cursor_def)
  with backspace_plain [of "terminal_write_char s c color"] col assms(3,4) show ?thesis by (simp add: w)
qed

theorem backspace_undoes_write_witness:
  "terminal_backspace (terminal_write_char demo_terminal_state 65 15) =
    demo_terminal_state\<lparr>kmem := store16 (kmem demo_terminal_state) (video_addr 80) (terminal_make_char 32 15)\<rparr>"
  using backspace_undoes_write [of 65 demo_terminal_state 15] by simp

text \<open>
  C29. Backspace at the left edge of a row below the first blanks the last cell of the row above but
  leaves the cursor in the same row with column 65535; the next printable character is then
  stored 65535 cells behind the start of that row, outside the screen.
\<close>

theorem backspace_at_left_edge_wraps:
  assumes "terminal_col s = 0" "0 < terminal_row s" "cursor s \<le> 1600" "c \<noteq> 10" "c \<noteq> 8"
  shows "terminal_row (terminal_backspace s) = terminal_row s \<and> terminal_col (terminal_backspace s) = 65535 \<and>
    kmem (terminal_write_char (terminal_backspace s) c color) =
      store16 (kmem (terminal_backspace s)) (video_addr (int (cursor s) + 65535)) (terminal_make_char c color)"
proof -
  have r: "0 < unat (terminal_row s)" using assms(2) by (simp add: word_less_nat_alt)
  have addr: "uint (terminal_row s) * 80 + 65535 = int (cursor s) + 65535" using assms(1) by (simp add: cursor_def)
  show ?thesis using assms(4,5) backspace_at_edge [OF assms(1) r assms(3)]
    by (simp add: terminal_write_char_def write_visible_def terminal_put_char_def Let_def addr)
qed

theorem backspace_at_left_edge_wraps_witness:
  "terminal_col (terminal_backspace demo_terminal_state) = 65535 \<and>
    kmem (terminal_write_char (terminal_backspace demo_terminal_state) 65 15) =
      store16 (kmem (terminal_backspace demo_terminal_state)) (video_addr 65615) (terminal_make_char 65 15)"
  using backspace_at_left_edge_wraps [of demo_terminal_state 65 15] by simp

end
