(* ===== verification/Elf.thy ===== *)
theory Elf
  imports Terminal
begin

text \<open>
  The ELF loader \<^verbatim>\<open>src/src/loader/formats/elf_file.c\<close> with the structures of \<^verbatim>\<open>elf.h\<close>. The file is loaded
  into a heap buffer in physical memory; headers are read from there, because the page tables
  of the process map the same bytes.
\<close>

section \<open>Bytes and messages in memory\<close>

definition load_bytes :: "mem \<Rightarrow> u32 \<Rightarrow> nat \<Rightarrow> u8 list" where
  "load_bytes m a n = map (\<lambda>i. m (a + of_nat i)) [0..<n]"

fun store_bytes :: "mem \<Rightarrow> u32 \<Rightarrow> u8 list \<Rightarrow> mem" where
  "store_bytes m a [] = m"
| "store_bytes m a (b # bs) = store_bytes (m(a := b)) (a + 1) bs"

text \<open>A message that ends in a line feed.\<close>

definition message :: "string \<Rightarrow> u8 list" where
  "message str = c_string (str @ [CHR 0x0A])"

text \<open>\<^verbatim>\<open>fread\<close> into memory at \<open>p\<close>.\<close>

definition fread_mem :: "device \<Rightarrow> 'a vfs_state_scheme \<Rightarrow> u32 \<Rightarrow> u32 \<Rightarrow> u32 \<Rightarrow> int \<Rightarrow> (u32 \<times> 'a vfs_state_scheme) outcome" where
  "fread_mem dev s p sz nmemb fd =
     (if p = 0 \<and> sz \<noteq> 0 \<and> nmemb \<noteq> 0 then Inl NullDeref
      else bind_r (fread dev s (load_bytes (kmem s) p (unat sz * unat nmemb)) sz nmemb fd) (\<lambda>(n, bs, s).
        Inr (n, s\<lparr>kmem := store_bytes (kmem s) p bs\<rparr>)))"

section \<open>Structures\<close>

record elf32_ehdr =
  e_ident :: "u8 list"
  e_type :: u16
  e_machine :: u16
  e_version :: u32
  e_entry :: u32
  e_phoff :: u32
  e_shoff :: u32
  e_flags :: u32
  e_ehsize :: u16
  e_phentsize :: u16
  e_phnum :: u16
  e_shentsize :: u16
  e_shnum :: u16
  e_shstrndx :: u16

record elf32_phdr =
  p_type :: u32
  p_offset :: u32
  p_vaddr :: u32
  p_paddr :: u32
  p_filesz :: u32
  p_memsz :: u32
  p_flags :: u32
  p_align :: u32

record elf32_shdr =
  sh_name :: u32
  sh_type :: u32
  sh_flags :: u32
  sh_addr :: u32
  sh_offset :: u32
  sh_size :: u32
  sh_link :: u32
  sh_info :: u32
  sh_addralign :: u32
  sh_entsize :: u32

definition ehdr_at :: "mem \<Rightarrow> u32 \<Rightarrow> elf32_ehdr" where
  "ehdr_at m a = \<lparr>e_ident = load_bytes m a 16, e_type = load16 m (a + 16), e_machine = load16 m (a + 18),
     e_version = load32 m (a + 20), e_entry = load32 m (a + 24), e_phoff = load32 m (a + 28),
     e_shoff = load32 m (a + 32), e_flags = load32 m (a + 36), e_ehsize = load16 m (a + 40),
     e_phentsize = load16 m (a + 42), e_phnum = load16 m (a + 44), e_shentsize = load16 m (a + 46),
     e_shnum = load16 m (a + 48), e_shstrndx = load16 m (a + 50)\<rparr>"

definition phdr_at :: "mem \<Rightarrow> u32 \<Rightarrow> elf32_phdr" where
  "phdr_at m a = \<lparr>p_type = load32 m a, p_offset = load32 m (a + 4), p_vaddr = load32 m (a + 8),
     p_paddr = load32 m (a + 12), p_filesz = load32 m (a + 16), p_memsz = load32 m (a + 20),
     p_flags = load32 m (a + 24), p_align = load32 m (a + 28)\<rparr>"

definition shdr_at :: "mem \<Rightarrow> u32 \<Rightarrow> elf32_shdr" where
  "shdr_at m a = \<lparr>sh_name = load32 m a, sh_type = load32 m (a + 4), sh_flags = load32 m (a + 8),
     sh_addr = load32 m (a + 12), sh_offset = load32 m (a + 16), sh_size = load32 m (a + 20),
     sh_link = load32 m (a + 24), sh_info = load32 m (a + 28), sh_addralign = load32 m (a + 32),
     sh_entsize = load32 m (a + 36)\<rparr>"

text \<open>Access through a pointer to a structure.\<close>

definition ehdr_deref :: "mem \<Rightarrow> u32 \<Rightarrow> elf32_ehdr outcome" where
  "ehdr_deref m a = (if a = 0 then Inl NullDeref else Inr (ehdr_at m a))"

definition phdr_deref :: "mem \<Rightarrow> u32 \<Rightarrow> elf32_phdr outcome" where
  "phdr_deref m a = (if a = 0 then Inl NullDeref else Inr (phdr_at m a))"

record elf_file =
  elf_filename :: "u8 list"
  in_memory_size :: int
  elf_file_buffer :: u32
  elf_virtual_addr_base :: u32
  elf_virtual_addr_end :: u32
  elf_phys_addr_base :: u32
  elf_phys_addr_end :: u32

record elf_state = terminal_state +
  elf_files :: "u32 \<rightharpoonup> elf_file"

abbreviation (input) PF_W :: u32 where "PF_W \<equiv> 0x02"
abbreviation (input) PT_LOAD :: u32 where "PT_LOAD \<equiv> 1"
abbreviation (input) ET_EXEC :: u16 where "ET_EXEC \<equiv> 2"
abbreviation (input) TASK_LOAD_VIRTUAL_ADDRESS :: u32 where "TASK_LOAD_VIRTUAL_ADDRESS \<equiv> 0x400000"

section \<open>Validation\<close>

definition elf_signature :: "u8 list" where
  "elf_signature = [0x7F, 69, 76, 70]"

definition elf_valid_signature :: "mem \<Rightarrow> u32 \<Rightarrow> bool outcome" where
  "elf_valid_signature m buffer =
     (if buffer = 0 then Inl NullDeref
      else bind_r (memcmp (load_bytes m buffer 4) elf_signature 4) (\<lambda>c. Inr (c = 0)))"

definition elf_valid_class :: "elf32_ehdr \<Rightarrow> bool" where
  "elf_valid_class hdr \<longleftrightarrow> e_ident hdr ! 4 = 0 \<or> e_ident hdr ! 4 = 1"

definition elf_valid_encoding :: "elf32_ehdr \<Rightarrow> bool" where
  "elf_valid_encoding hdr \<longleftrightarrow> e_ident hdr ! 5 = 0 \<or> e_ident hdr ! 5 = 1"

definition elf_is_executable :: "elf32_ehdr \<Rightarrow> bool" where
  "elf_is_executable hdr \<longleftrightarrow> e_type hdr = ET_EXEC"

definition elf_valid_entry :: "elf32_ehdr \<Rightarrow> bool" where
  "elf_valid_entry hdr \<longleftrightarrow> e_entry hdr = TASK_LOAD_VIRTUAL_ADDRESS"

definition elf_get_ehdr :: "elf_file \<Rightarrow> u32" where
  "elf_get_ehdr ef = (if elf_file_buffer ef = 0 then 0 else elf_file_buffer ef)"

definition elf_has_program_header_table :: "elf32_ehdr \<Rightarrow> bool" where
  "elf_has_program_header_table hdr \<longleftrightarrow> e_phoff hdr \<noteq> 0"

definition valid_elf_file :: "mem \<Rightarrow> u32 \<Rightarrow> bool outcome" where
  "valid_elf_file m hdr =
     bind_r (elf_valid_signature m hdr) (\<lambda>sig. bind_r (ehdr_deref m hdr) (\<lambda>h.
       Inr (sig \<and> elf_valid_class h \<and> elf_valid_encoding h \<and> elf_is_executable h \<and> elf_has_program_header_table h)))"

section \<open>Tables\<close>

definition elf_get_shdr_table :: "mem \<Rightarrow> u32 \<Rightarrow> u32 outcome" where
  "elf_get_shdr_table m hdr = bind_r (ehdr_deref m hdr) (\<lambda>h. Inr (hdr + e_shoff h))"

definition elf_get_shdr :: "mem \<Rightarrow> u32 \<Rightarrow> u32 \<Rightarrow> u32 outcome" where
  "elf_get_shdr m hdr index = bind_r (elf_get_shdr_table m hdr) (\<lambda>t. Inr (t + 40 * index))"

definition elf_get_phdr_table :: "mem \<Rightarrow> u32 \<Rightarrow> u32 outcome" where
  "elf_get_phdr_table m hdr =
     bind_r (ehdr_deref m hdr) (\<lambda>h. Inr (if \<not> elf_has_program_header_table h then 0 else hdr + e_phoff h))"

definition elf_get_phdr :: "mem \<Rightarrow> u32 \<Rightarrow> u32 \<Rightarrow> u32 outcome" where
  "elf_get_phdr m hdr index = bind_r (elf_get_phdr_table m hdr) (\<lambda>t. Inr (t + 32 * index))"

definition elf_get_string_table :: "mem \<Rightarrow> u32 \<Rightarrow> u32 outcome" where
  "elf_get_string_table m hdr =
     bind_r (ehdr_deref m hdr) (\<lambda>h. bind_r (elf_get_shdr m hdr (ucast (e_shstrndx h))) (\<lambda>sec.
       Inr (hdr + sh_offset (shdr_at m sec))))"

definition elf_file_get_segment_phys_addr :: "elf_file \<Rightarrow> elf32_phdr \<Rightarrow> u32" where
  "elf_file_get_segment_phys_addr ef phdr = elf_file_buffer ef + p_offset phdr"

section \<open>Program headers\<close>

definition elf_process_pheader_pt_load :: "elf_file \<Rightarrow> elf32_phdr \<Rightarrow> int \<times> elf_file" where
  "elf_process_pheader_pt_load ef phdr =
     (if p_type phdr \<noteq> PT_LOAD then (- EINVARG, ef)
      else
        let ef = (if elf_virtual_addr_base ef \<ge> p_vaddr phdr \<or> elf_virtual_addr_base ef = 0
                  then ef\<lparr>elf_virtual_addr_base := p_vaddr phdr, elf_phys_addr_base := elf_file_buffer ef + p_offset phdr\<rparr>
                  else ef);
            end_virt_addr = p_vaddr phdr + p_filesz phdr;
            ef = (if elf_virtual_addr_end ef \<le> end_virt_addr \<or> elf_virtual_addr_end ef = 0
                  then ef\<lparr>elf_virtual_addr_end := end_virt_addr,
                          elf_phys_addr_end := elf_file_buffer ef + p_offset phdr + p_filesz phdr\<rparr>
                  else ef) in
        (0, ef))"

definition elf_process_pheader :: "'a elf_state_scheme \<Rightarrow> u32 \<Rightarrow> elf32_phdr \<Rightarrow> (int \<times> 'a elf_state_scheme) outcome" where
  "elf_process_pheader s elf phdr =
     (if p_type phdr = PT_LOAD
      then bind_r (deref (elf_files s) elf) (\<lambda>ef.
        let (rc, ef) = elf_process_pheader_pt_load ef phdr; s = s\<lparr>elf_files := (elf_files s)(elf \<mapsto> ef)\<rparr> in
        if rc < 0
        then bind_r (print s (message ''ERROR: elf_process_pheader: Error processing PT_LOAD segment'')) (\<lambda>s. Inr (rc, s))
        else Inr (rc, s))
      else Inr (0, s))"

text \<open>Every round of the loop takes the first header of the table.\<close>

function pheaders_loop :: "'a elf_state_scheme \<Rightarrow> u32 \<Rightarrow> u32 \<Rightarrow> int \<Rightarrow> int \<Rightarrow> 'a elf_state_scheme outcome" where
  "pheaders_loop s elf hdr phnum i =
     (if i < phnum
      then bind_r (elf_get_phdr_table (kmem s) hdr) (\<lambda>t. bind_r (phdr_deref (kmem s) t) (\<lambda>phdr.
        bind_r (elf_process_pheader s elf phdr) (\<lambda>(rc, s).
          bind_r (if rc < 0 then print s (message ''ERROR: elf_process_pheaders: Failed to process a program header'') else Inr s)
            (\<lambda>s. pheaders_loop s elf hdr phnum (i + 1)))))
      else Inr s)"
  by pat_completeness auto
termination
  by (relation "measure (\<lambda>(s, elf, hdr, n, i). nat (n - i))") auto

declare pheaders_loop.simps [simp del]

definition elf_process_pheaders :: "'a elf_state_scheme \<Rightarrow> u32 \<Rightarrow> (int \<times> 'a elf_state_scheme) outcome" where
  "elf_process_pheaders s elf =
     bind_r (deref (elf_files s) elf) (\<lambda>ef. bind_r (ehdr_deref (kmem s) (elf_get_ehdr ef)) (\<lambda>h.
       bind_r (pheaders_loop s elf (elf_get_ehdr ef) (uint (e_phnum h)) 0) (\<lambda>s. Inr (0, s))))"

definition process_elf_file :: "'a elf_state_scheme \<Rightarrow> u32 \<Rightarrow> (int \<times> 'a elf_state_scheme) outcome" where
  "process_elf_file s elf =
     bind_r (deref (elf_files s) elf) (\<lambda>ef.
       if elf_file_buffer ef = 0 then Inr (- EINVARG, s)
       else bind_r (valid_elf_file (kmem s) (elf_get_ehdr ef)) (\<lambda>ok.
         if \<not> ok
         then bind_r (print s (message ''ERROR: process_elf_file: Invalid ELF file'')) (\<lambda>s. Inr (- EIFORMAT, s))
         else bind_r (elf_process_pheaders s elf) (\<lambda>(rc, s). if rc < 0 then Inr (rc, s) else Inr (0, s))))"

section \<open>Loading and closing\<close>

definition zero_stat :: file_stat where
  "zero_stat = \<lparr>stat_flags = 0, stat_filesize = 0\<rparr>"

definition free_elf_file :: "'a elf_state_scheme \<Rightarrow> u32 \<Rightarrow> 'a elf_state_scheme outcome" where
  "free_elf_file s elf = bind_r (kfree s elf) (\<lambda>(_, s). Inr (s\<lparr>elf_files := (elf_files s)(elf := None)\<rparr>))"

text \<open>\<^verbatim>\<open>kfree\<close> of the buffer and of the structure.\<close>

definition free_elf_and_buffer :: "'a elf_state_scheme \<Rightarrow> u32 \<Rightarrow> 'a elf_state_scheme outcome" where
  "free_elf_and_buffer s elf =
     bind_r (deref (elf_files s) elf) (\<lambda>ef. bind_r (kfree s (elf_file_buffer ef)) (\<lambda>(_, s). free_elf_file s elf))"

text \<open>\<^verbatim>\<open>elf_file_out\<close> is the second component; it is only assigned on success. \<^verbatim>\<open>stat\<close> starts zeroed.\<close>

definition elf_file_init :: "device \<Rightarrow> 'a elf_state_scheme \<Rightarrow> u8 list \<Rightarrow> (int \<times> u32 \<times> 'a elf_state_scheme) outcome" where
  "elf_file_init dev s fname =
     bind_r (kzalloc s 152) (\<lambda>(elf, s).
       if elf = 0 then Inr (- ENOMEM, 0, s)
       else
         let s = s\<lparr>elf_files := (elf_files s)(elf \<mapsto> \<lparr>elf_filename = replicate 128 0, in_memory_size = 0,
               elf_file_buffer = 0, elf_virtual_addr_base = 0, elf_virtual_addr_end = 0,
               elf_phys_addr_base = 0, elf_phys_addr_end = 0\<rparr>)\<rparr> in
         bind_r (fopen dev s fname (c_string ''r'')) (\<lambda>(fd, s).
           if fd < 0 then bind_r (free_elf_file s elf) (\<lambda>s. Inr (fd, 0, s))
           else bind_r (fstat s fd zero_stat) (\<lambda>(rc, stat).
             if rc < 0 then bind_r (free_elf_file s elf) (\<lambda>s. Inr (rc, 0, s))
             else bind_r (kzalloc s (stat_filesize stat)) (\<lambda>(buf, s).
               bind_r (deref (elf_files s) elf) (\<lambda>ef.
                 let s = s\<lparr>elf_files := (elf_files s)(elf \<mapsto> ef\<lparr>elf_file_buffer := buf\<rparr>)\<rparr> in
                 bind_r (fread_mem dev s buf (stat_filesize stat) 1 fd) (\<lambda>(n, s).
                   if n \<noteq> 1
                   then bind_r (print s (message ''elf_file_init: error reading elf file into elf_file_buffer'')) (\<lambda>s.
                     bind_r (free_elf_and_buffer s elf) (\<lambda>s. Inr (- EINVARG, 0, s)))
                   else bind_r (process_elf_file s elf) (\<lambda>(rc, s).
                     if rc < 0
                     then bind_r (free_elf_and_buffer s elf) (\<lambda>s.
                       bind_r (fclose s fd) (\<lambda>(_, s). Inr (rc, 0, s)))
                     else bind_r (fclose s fd) (\<lambda>(_, s). Inr (0, elf, s)))))))))"

definition elf_file_close :: "'a elf_state_scheme \<Rightarrow> u32 \<Rightarrow> 'a elf_state_scheme outcome" where
  "elf_file_close s elf = (if elf = 0 then Inr s else free_elf_and_buffer s elf)"

end
