(* ===== verification/Task.thy ===== *)
theory Task
  imports Elf
begin

text \<open>
  Tasks: \<^verbatim>\<open>src/src/task/task.c\<close> with the structures of \<^verbatim>\<open>task.h\<close>, \<^verbatim>\<open>process.h\<close> and \<^verbatim>\<open>idt.h\<close>. Tasks and
  processes are objects in stores keyed by heap address; the task list is the doubly linked
  list of the source. The registers set by assembly are state components: \<open>seg_regs\<close> for the data
  segment registers and \<open>user_regs\<close> for the registers with which user mode was last entered.
\<close>

section \<open>Structures\<close>

record interrupt_frame =
  f_edi :: u32
  f_esi :: u32
  f_ebp :: u32
  f_unused_esp :: u32
  f_ebx :: u32
  f_edx :: u32
  f_ecx :: u32
  f_eax :: u32
  f_ip :: u32
  f_cs :: u32
  f_eflags :: u32
  f_esp :: u32
  f_ss :: u32

record registers =
  r_edi :: u32
  r_esi :: u32
  r_ebp :: u32
  r_ebx :: u32
  r_edx :: u32
  r_ecx :: u32
  r_eax :: u32
  r_ip :: u32
  r_cs :: u32
  r_eflags :: u32
  r_esp :: u32
  r_ss :: u32

record task =
  t_paging :: u32
  t_registers :: registers
  t_process :: u32
  t_next :: u32
  t_prev :: u32

datatype executable_format = BINARY | ELF

record process_mem_allocation =
  alloc_ptr :: u32
  alloc_size :: u32

record keyboard_buffer =
  kb_buffer :: "u8 list"
  kb_head :: int
  kb_tail :: int

text \<open>\<open>executable\<close> is the union of \<^verbatim>\<open>binary_executable\<close> and \<^verbatim>\<open>elf_file\<close>.\<close>

record process =
  pid :: u16
  p_filename :: "u8 list"
  p_task :: u32
  mem_allocs :: "process_mem_allocation list"
  executable :: u32
  stack_addr :: u32
  p_size :: u32
  p_format :: executable_format
  keyboard :: keyboard_buffer
  argc :: int
  argv :: u32
  arg_block :: u32

record task_state = elf_state +
  tasks :: "u32 \<rightharpoonup> task"
  procs :: "u32 \<rightharpoonup> process"
  current_task :: u32
  task_list_head :: u32
  task_list_tail :: u32
  current_process :: u32
  processes :: "u32 list"
  kernel_pages :: u32
  seg_regs :: u16
  user_regs :: "registers option"

abbreviation (input) USER_CODE_SEGMENT :: u32 where "USER_CODE_SEGMENT \<equiv> 0x1b"
abbreviation (input) USER_DATA_SEGMENT :: u32 where "USER_DATA_SEGMENT \<equiv> 0x23"
abbreviation (input) TASK_STACK_VIRT_ADDR :: u32 where "TASK_STACK_VIRT_ADDR \<equiv> 0x3FF000"
abbreviation (input) TASK_STACK_SIZE :: u32 where "TASK_STACK_SIZE \<equiv> 16384"

definition zero_registers :: registers where
  "zero_registers = \<lparr>r_edi = 0, r_esi = 0, r_ebp = 0, r_ebx = 0, r_edx = 0, r_ecx = 0, r_eax = 0, r_ip = 0, r_cs = 0, r_eflags = 0, r_esp = 0, r_ss = 0\<rparr>"

definition upd_task :: "'a task_state_scheme \<Rightarrow> u32 \<Rightarrow> (task \<Rightarrow> task) \<Rightarrow> 'a task_state_scheme outcome" where
  "upd_task s p f = bind_r (deref (tasks s) p) (\<lambda>t. Inr (s\<lparr>tasks := (tasks s)(p \<mapsto> f t)\<rparr>))"

section \<open>The task list\<close>

definition get_task_list_head :: "'a task_state_scheme \<Rightarrow> u32" where
  "get_task_list_head s = task_list_head s"

definition get_current_task :: "'a task_state_scheme \<Rightarrow> u32" where
  "get_current_task s = current_task s"

definition task_get_next :: "'a task_state_scheme \<Rightarrow> u32 outcome" where
  "task_get_next s =
     bind_r (deref (tasks s) (current_task s)) (\<lambda>t. Inr (if t_next t = 0 then task_list_head s else t_next t))"

definition task_list_remove :: "'a task_state_scheme \<Rightarrow> u32 \<Rightarrow> 'a task_state_scheme outcome" where
  "task_list_remove s task =
     bind_r (if task = task_list_head s \<and> task = task_list_tail s
             then Inr (s\<lparr>task_list_head := 0, task_list_tail := 0, current_task := 0\<rparr>)
             else if task = task_list_head s
             then bind_r (deref (tasks s) task) (\<lambda>t.
               upd_task (s\<lparr>task_list_head := t_next t\<rparr>) (t_next t) (\<lambda>n. n\<lparr>t_prev := 0\<rparr>))
             else if task = task_list_tail s
             then bind_r (deref (tasks s) task) (\<lambda>t.
               upd_task (s\<lparr>task_list_tail := t_prev t\<rparr>) (t_prev t) (\<lambda>n. n\<lparr>t_next := 0\<rparr>))
             else bind_r (deref (tasks s) task) (\<lambda>t.
               upd_task s (t_prev t) (\<lambda>n. n\<lparr>t_next := t_next t\<rparr>))) (\<lambda>s.
       if task = current_task s then bind_r (task_get_next s) (\<lambda>n. Inr (s\<lparr>current_task := n\<rparr>)) else Inr s)"

definition task_free :: "'a task_state_scheme \<Rightarrow> u32 \<Rightarrow> (int \<times> 'a task_state_scheme) outcome" where
  "task_free s task =
     bind_r (deref (tasks s) task) (\<lambda>t. bind_r (free_page_tables s (t_paging t)) (\<lambda>s.
       bind_r (task_list_remove s task) (\<lambda>s. bind_r (kfree s task) (\<lambda>(_, s).
         Inr (0, s\<lparr>tasks := (tasks s)(task := None)\<rparr>)))))"

definition task_init :: "'a task_state_scheme \<Rightarrow> u32 \<Rightarrow> u32 \<Rightarrow> (int \<times> 'a task_state_scheme) outcome" where
  "task_init s task process =
     bind_r (init_page_tables s 5) (\<lambda>(paging, s).
       let t = \<lparr>t_paging = paging, t_registers = zero_registers, t_process = 0, t_next = 0, t_prev = 0\<rparr> in
       if paging = 0 then Inr (- EIO, s\<lparr>tasks := (tasks s)(task \<mapsto> t)\<rparr>)
       else bind_r (deref (procs s) process) (\<lambda>p.
         bind_r (if p_format p = ELF
                 then bind_r (deref (elf_files s) (executable p)) (\<lambda>ef.
                   bind_r (ehdr_deref (kmem s) (elf_get_ehdr ef)) (\<lambda>h. Inr (e_entry h)))
                 else Inr TASK_LOAD_VIRTUAL_ADDRESS) (\<lambda>entry.
           Inr (0, s\<lparr>tasks := (tasks s)(task \<mapsto> t\<lparr>t_process := process, t_registers := zero_registers\<lparr>r_ip := entry,
             r_ss := USER_DATA_SEGMENT, r_cs := USER_CODE_SEGMENT, r_esp := TASK_STACK_VIRT_ADDR - 8\<rparr>\<rparr>)\<rparr>))))"

text \<open>The end of \<^verbatim>\<open>task_new\<close>, which links the task into the list.\<close>

definition task_list_append :: "'a task_state_scheme \<Rightarrow> u32 \<Rightarrow> 'a task_state_scheme outcome" where
  "task_list_append s task =
     (if task_list_head s = 0
      then Inr (s\<lparr>task_list_head := task, task_list_tail := task, current_task := task\<rparr>)
      else bind_r (upd_task s (task_list_tail s) (\<lambda>t. t\<lparr>t_next := task\<rparr>)) (\<lambda>s.
        bind_r (upd_task s task (\<lambda>t. t\<lparr>t_prev := task_list_tail s\<rparr>)) (\<lambda>s.
          upd_task (s\<lparr>task_list_tail := task\<rparr>) task (\<lambda>t. t\<lparr>t_next := 0\<rparr>))))"

definition task_new :: "'a task_state_scheme \<Rightarrow> u32 \<Rightarrow> (u32 \<times> 'a task_state_scheme) outcome" where
  "task_new s process =
     bind_r (kzalloc s 64) (\<lambda>(task, s).
       if task = 0 then Inr (ERROR (- ENOMEM), s)
       else bind_r (task_init s task process) (\<lambda>(rc, s).
         if rc \<noteq> STATUS_OK then bind_r (task_free s task) (\<lambda>(_, s). Inr (ERROR (- 1), s))
         else bind_r (task_list_append s task) (\<lambda>s. Inr (task, s))))"

section \<open>Switching\<close>

definition set_current_process :: "'a task_state_scheme \<Rightarrow> u32 \<Rightarrow> 'a task_state_scheme" where
  "set_current_process s process = s\<lparr>current_process := process\<rparr>"

definition swap_kernel_page_tables :: "'a task_state_scheme \<Rightarrow> 'a task_state_scheme outcome" where
  "swap_kernel_page_tables s = paging_switch (s\<lparr>seg_regs := 0x10\<rparr>) (kernel_pages s)"

definition swap_task_page_tables :: "'a task_state_scheme \<Rightarrow> u32 \<Rightarrow> (int \<times> 'a task_state_scheme) outcome" where
  "swap_task_page_tables s task =
     bind_r (deref (tasks s) task) (\<lambda>t. bind_r (paging_switch (s\<lparr>seg_regs := 0x23\<rparr>) (t_paging t)) (\<lambda>s. Inr (0, s)))"

definition swap_curr_task_page_tables :: "'a task_state_scheme \<Rightarrow> (int \<times> 'a task_state_scheme) outcome" where
  "swap_curr_task_page_tables s =
     bind_r (deref (tasks s) (current_task s)) (\<lambda>t.
       bind_r (paging_switch (s\<lparr>seg_regs := 0x23\<rparr>) (t_paging t)) (\<lambda>s. Inr (0, s)))"

text \<open>Entering user mode does not return to the caller; the model ends with the registers of the task.\<close>

definition task_exec :: "'a task_state_scheme \<Rightarrow> u32 \<Rightarrow> 'a task_state_scheme outcome" where
  "task_exec s task =
     bind_r (deref (tasks s) task) (\<lambda>t.
       bind_r (paging_switch (set_current_process (s\<lparr>current_task := task\<rparr>) (t_process t)) (t_paging t)) (\<lambda>s.
         Inr (s\<lparr>user_regs := Some (t_registers t)\<rparr>)))"

definition task_current_save_state :: "'a task_state_scheme \<Rightarrow> interrupt_frame \<Rightarrow> 'a task_state_scheme outcome" where
  "task_current_save_state s frame =
     (if get_current_task s = 0 then Inl (Panic (''task_current_save_state: No current task!'' @ [CHR 0x0A]))
      else upd_task s (get_current_task s) (\<lambda>t. t\<lparr>t_registers := (t_registers t)\<lparr>r_edi := f_edi frame, r_esi := f_esi frame,
        r_ebp := f_ebp frame, r_ebx := f_ebx frame, r_edx := f_edx frame, r_ecx := f_ecx frame, r_eax := f_eax frame,
        r_ip := f_ip frame, r_cs := f_cs frame, r_eflags := f_eflags frame, r_esp := f_esp frame, r_ss := f_ss frame\<rparr>\<rparr>))"

section \<open>Access to the memory of a task\<close>

text \<open>Loads and stores of the processor under the page directory \<open>dir\<close>; the kernel may write read-only pages.\<close>

definition virt_load :: "mem \<Rightarrow> u32 \<Rightarrow> u32 \<Rightarrow> u8 outcome" where
  "virt_load m dir va = (case mmu_translate m dir va of None \<Rightarrow> Inl PageFault | Some pa \<Rightarrow> Inr (m pa))"

definition virt_store :: "mem \<Rightarrow> u32 \<Rightarrow> u32 \<Rightarrow> u8 \<Rightarrow> mem outcome" where
  "virt_store m dir va b = (case mmu_translate m dir va of None \<Rightarrow> Inl PageFault | Some pa \<Rightarrow> Inr (m(pa := b)))"

definition virt_load32 :: "mem \<Rightarrow> u32 \<Rightarrow> u32 \<Rightarrow> u32 outcome" where
  "virt_load32 m dir va =
     bind_r (virt_load m dir va) (\<lambda>a. bind_r (virt_load m dir (va + 1)) (\<lambda>b.
       bind_r (virt_load m dir (va + 2)) (\<lambda>c. bind_r (virt_load m dir (va + 3)) (\<lambda>d.
         Inr (ucast a OR push_bit 8 (ucast b) OR push_bit 16 (ucast c) OR push_bit 24 (ucast d))))))"

text \<open>\<^verbatim>\<open>strncpy\<close> on virtual memory: the terminator is written at index \<open>n\<close> at the latest.\<close>

function virt_strncpy :: "mem \<Rightarrow> u32 \<Rightarrow> u32 \<Rightarrow> u32 \<Rightarrow> nat \<Rightarrow> nat \<Rightarrow> mem outcome" where
  "virt_strncpy m dir dest src n i =
     (if i < n
      then bind_r (virt_load m dir (src + of_nat i)) (\<lambda>c.
        if c = 0 then virt_store m dir (dest + of_nat i) 0
        else bind_r (virt_store m dir (dest + of_nat i) c) (\<lambda>m. virt_strncpy m dir dest src n (Suc i)))
      else virt_store m dir (dest + of_nat i) 0)"
  by pat_completeness auto
termination
  by (relation "measure (\<lambda>(m, dir, d, src, n, i). n - i)") auto

declare virt_strncpy.simps [simp del]

text \<open>\<open>dest\<close> is the kernel buffer at \<^verbatim>\<open>kernel_virt_addr\<close>; its final content is returned.\<close>

definition copy_string_from_user_task :: "'a task_state_scheme \<Rightarrow> u32 \<Rightarrow> u32 \<Rightarrow> u8 list \<Rightarrow> int \<Rightarrow>
    (int \<times> u8 list \<times> 'a task_state_scheme) outcome" where
  "copy_string_from_user_task s task task_virt_addr dest max_len =
     (if max_len \<ge> 4096 then Inr (- EINVARG, dest, s)
      else bind_r (kzalloc s (of_int max_len)) (\<lambda>(tmp, s).
        if tmp = 0 then Inr (- ENOMEM, dest, s)
        else bind_r (deref (tasks s) task) (\<lambda>t.
          bind_r (get_pgd (kmem s) (t_paging t)) (\<lambda>dir.
            bind_r (paging_get_pte (kmem s) dir tmp) (\<lambda>old_entry.
              bind_r (paging_map_range (kmem s) (t_paging t) tmp tmp 1 7) (\<lambda>(_, m).
                bind_r (paging_switch (s\<lparr>kmem := m\<rparr>) (t_paging t)) (\<lambda>s.
                  bind_r (virt_strncpy (kmem s) (cr3 s) tmp task_virt_addr (nat max_len) 0) (\<lambda>m.
                    bind_r (swap_kernel_page_tables (s\<lparr>kmem := m\<rparr>)) (\<lambda>s.
                      bind_r (paging_set (kmem s) dir tmp old_entry) (\<lambda>(rc, m).
                        let s = s\<lparr>kmem := m\<rparr> in
                        if rc < 0 then bind_r (kfree s tmp) (\<lambda>(_, s). Inr (- EIO, dest, s))
                        else bind_r (strncpy dest (load_bytes (kmem s) tmp 4096) (nat max_len)) (\<lambda>dest.
                          Inr (0, dest, s))))))))))))"

definition task_get_stack_item :: "'a task_state_scheme \<Rightarrow> u32 \<Rightarrow> int \<Rightarrow> (u32 \<times> 'a task_state_scheme) outcome" where
  "task_get_stack_item s task index =
     (if index < 0 then Inl (Panic (''task_get_stack_item: index must be >= 0.'' @ [CHR 0x0A]))
      else bind_r (deref (tasks s) task) (\<lambda>t.
        bind_r (swap_task_page_tables s task) (\<lambda>(_, s).
          bind_r (virt_load32 (kmem s) (cr3 s) (r_esp (t_registers t) + 4 * of_int index)) (\<lambda>item.
            bind_r (swap_kernel_page_tables s) (\<lambda>s. Inr (item, s))))))"

definition task_virtual_address_to_physical :: "'a task_state_scheme \<Rightarrow> u32 \<Rightarrow> u32 \<Rightarrow> u32 outcome" where
  "task_virtual_address_to_physical s task va =
     bind_r (deref (tasks s) task) (\<lambda>t. bind_r (get_pgd (kmem s) (t_paging t)) (\<lambda>dir.
       paging_get_physical_address (kmem s) dir va))"

section \<open>The task list\<close>

text \<open>The tasks \<open>xs\<close> form the doubly linked list of the state.\<close>

definition dll :: "'a task_state_scheme \<Rightarrow> u32 list \<Rightarrow> bool" where
  "dll s xs \<longleftrightarrow> distinct xs \<and> 0 \<notin> set xs \<and>
     task_list_head s = (if xs = [] then 0 else hd xs) \<and> task_list_tail s = (if xs = [] then 0 else last xs) \<and>
     (\<forall>i < length xs. \<exists>t. tasks s (xs ! i) = Some t \<and>
       t_next t = (if Suc i < length xs then xs ! Suc i else 0) \<and> t_prev t = (if i = 0 then 0 else xs ! (i - 1)))"

lemma dll_nth:
  "dll s xs \<Longrightarrow> i < length xs \<Longrightarrow> \<exists>t. tasks s (xs ! i) = Some t \<and>
    t_next t = (if Suc i < length xs then xs ! Suc i else 0) \<and> t_prev t = (if i = 0 then 0 else xs ! (i - 1))"
  unfolding dll_def by blast

lemma dll_nonzero: "dll s xs \<Longrightarrow> i < length xs \<Longrightarrow> xs ! i \<noteq> 0"
  unfolding dll_def by (metis nth_mem)

lemma dll_current [simp]: "dll (s\<lparr>current_task := c\<rparr>) xs = dll s xs"
  by (simp add: dll_def)

lemma dll_ends: "dll s xs \<Longrightarrow> xs \<noteq> [] \<Longrightarrow> hd xs \<noteq> 0 \<and> last xs \<noteq> 0"
  unfolding dll_def by (metis hd_in_set last_in_set)

lemma upd_task_Some: "tasks s p = Some t \<Longrightarrow> p \<noteq> 0 \<Longrightarrow> upd_task s p f = Inr (s\<lparr>tasks := (tasks s)(p \<mapsto> f t)\<rparr>)"
  by (simp add: upd_task_def deref_def)

lemma append_dll:
  assumes d: "dll s xs" and x: "x \<notin> set xs" "x \<noteq> 0" "tasks s x = Some t" "t_prev t = 0" "t_next t = 0"
  shows "\<exists>s'. task_list_append s x = Inr s' \<and> dll s' (xs @ [x])"
proof (cases "xs = []")
  case True
  then show ?thesis using d x by (simp add: task_list_append_def dll_def)
next
  case False
  let ?l = "last xs"
  have idx: "?l = xs ! (length xs - 1)" "length xs - 1 < length xs" using False by (auto simp: last_conv_nth)
  obtain tl where tl: "tasks s ?l = Some tl" "t_prev tl = (if length xs - 1 = 0 then 0 else xs ! (length xs - 1 - 1))"
    using dll_nth [OF d idx(2)] by (metis idx(1))
  have l: "task_list_head s \<noteq> 0" "task_list_tail s = ?l" "?l \<noteq> x" "?l \<noteq> 0" "distinct xs"
    using d False x(1) last_in_set [OF False] dll_ends [OF d False] by (auto simp: dll_def)
  let ?s = "s\<lparr>tasks := (tasks s)(?l \<mapsto> tl\<lparr>t_next := x\<rparr>, x \<mapsto> t\<lparr>t_prev := ?l, t_next := 0\<rparr>), task_list_tail := x\<rparr>"
  have "task_list_append s x = Inr ?s"
    using l tl(1) x by (simp add: task_list_append_def upd_task_Some)
  moreover have "dll ?s (xs @ [x])"
  proof -
    have "\<exists>u. tasks ?s ((xs @ [x]) ! i) = Some u \<and>
        t_next u = (if Suc i < length (xs @ [x]) then (xs @ [x]) ! Suc i else 0) \<and>
        t_prev u = (if i = 0 then 0 else (xs @ [x]) ! (i - 1))" if i: "i < length (xs @ [x])" for i
    proof -
      consider "i = length xs" | "Suc i = length xs" | "Suc i < length xs" using i by fastforce
      then show ?thesis
      proof cases
        case 1
        then show ?thesis using idx False by (simp add: nth_append)
      next
        case 2
        then have "xs ! i = ?l" "xs ! i \<noteq> x" using idx l(3) by (auto simp: last_conv_nth dest: sym)
        moreover have "length xs - Suc (Suc 0) = i - Suc 0" using 2 by simp
        ultimately show ?thesis using 2 tl by (auto simp: nth_append)
      next
        case 3
        obtain u where u: "tasks s (xs ! i) = Some u" "t_next u = xs ! Suc i" "t_prev u = (if i = 0 then 0 else xs ! (i - 1))"
          using dll_nth [OF d, of i] 3 by auto
        have "xs ! i \<noteq> ?l" using 3 l(5) idx by (auto simp: nth_eq_iff_index_eq)
        moreover have "xs ! i \<noteq> x" using 3 x(1) nth_mem [of i xs] by auto
        moreover have "i - Suc 0 < length xs" using 3 by simp
        ultimately show ?thesis using u 3 by (simp add: nth_append)
      qed
    qed
    then show ?thesis using d False x(1,2) unfolding dll_def by simp
  qed
  ultimately show ?thesis by blast
qed

text \<open>Removing the last task.\<close>

lemma remove_last_dll:
  assumes d: "dll s (ys @ [l, x])" and c: "current_task s \<in> set (ys @ [l, x])"
  shows "\<exists>s'. task_list_remove s x = Inr s' \<and> dll s' (ys @ [l]) \<and> current_task s' \<in> set (ys @ [l])"
proof -
  obtain t where t: "tasks s x = Some t" "t_next t = 0" "t_prev t = l"
    using dll_nth [OF d, of "Suc (length ys)"] by (auto simp: nth_append)
  have pre: "ys \<noteq> [] \<Longrightarrow> (ys @ [l, x]) ! (length ys - 1) = ys ! (length ys - 1)" by (simp add: nth_append)
  obtain tl where tl: "tasks s l = Some tl" "t_prev tl = (if ys = [] then 0 else ys ! (length ys - 1))"
    using dll_nth [OF d, of "length ys"] pre by - (cases "ys = []", auto)
  have h: "task_list_head s = hd (ys @ [l])" "task_list_tail s = x" "x \<notin> set ys" "x \<noteq> 0" "l \<noteq> 0" "distinct ys" "l \<notin> set ys" "l \<noteq> x"
    using d by (auto simp: dll_def hd_append)
  have hx: "hd (ys @ [l]) \<noteq> x" using h(3,8) by (cases ys) auto
  let ?s = "s\<lparr>tasks := (tasks s)(l \<mapsto> tl\<lparr>t_next := 0\<rparr>), task_list_tail := l\<rparr>"
  let ?s' = "if x = current_task s then ?s\<lparr>current_task := hd (ys @ [l])\<rparr> else ?s"
  have "task_list_remove s x = Inr ?s'"
    using h hx t tl(1) by - (cases "current_task s = x", simp_all add: task_list_remove_def upd_task_Some deref_def task_get_next_def)
  moreover have "dll ?s (ys @ [l])"
  proof -
    have "\<exists>u. tasks ?s ((ys @ [l]) ! i) = Some u \<and> t_next u = (if Suc i < length (ys @ [l]) then (ys @ [l]) ! Suc i else 0) \<and>
        t_prev u = (if i = 0 then 0 else (ys @ [l]) ! (i - 1))" if i: "i < length (ys @ [l])" for i
    proof (cases "i = length ys")
      case True
      then show ?thesis using tl by (simp add: nth_append)
    next
      case False
      then have i': "i < length ys" using i by simp
      then have "ys ! i \<noteq> l" using h(7) nth_mem by blast
      then show ?thesis using dll_nth [OF d, of i] i' by (auto simp: nth_append less_Suc_eq)
    qed
    then show ?thesis using d unfolding dll_def by (auto simp: hd_append)
  qed
  then have "dll ?s' (ys @ [l])" by simp
  moreover have "current_task ?s' \<in> set (ys @ [l])" using c by (auto simp: hd_append)
  ultimately show ?thesis by blast
qed

text \<open>Removing the first task.\<close>

lemma remove_first_dll:
  assumes d: "dll s (x # y # ys)" and c: "current_task s \<in> set (x # y # ys)"
  shows "\<exists>s'. task_list_remove s x = Inr s' \<and> dll s' (y # ys) \<and> current_task s' \<in> set (y # ys)"
proof -
  obtain t where t: "tasks s x = Some t" "t_next t = y"
    using dll_nth [OF d, of 0] by auto
  obtain ty where ty: "tasks s y = Some ty" "t_next ty = (if ys = [] then 0 else hd ys)"
    using dll_nth [OF d, of 1] by - (cases ys, auto)
  have h: "task_list_head s = x" "task_list_tail s = last (y # ys)" "x \<noteq> 0" "y \<noteq> 0" "x \<noteq> y" "x \<notin> set ys" "y \<notin> set ys"
    using d by (auto simp: dll_def)
  have lx: "last (y # ys) \<noteq> x" using h(5,6) last_in_set [of "y # ys"] by auto
  let ?s = "s\<lparr>tasks := (tasks s)(y \<mapsto> ty\<lparr>t_prev := 0\<rparr>), task_list_head := y\<rparr>"
  let ?s' = "if x = current_task s then ?s\<lparr>current_task := y\<rparr> else ?s"
  have "task_list_remove s x = Inr ?s'"
    using h lx t ty(1) by - (cases "current_task s = x", simp_all add: task_list_remove_def upd_task_Some deref_def task_get_next_def)
  moreover have "dll ?s (y # ys)"
  proof -
    have "\<exists>u. tasks ?s ((y # ys) ! i) = Some u \<and> t_next u = (if Suc i < length (y # ys) then (y # ys) ! Suc i else 0) \<and>
        t_prev u = (if i = 0 then 0 else (y # ys) ! (i - 1))" if i: "i < length (y # ys)" for i
    proof (cases i)
      case 0
      then show ?thesis using ty by (cases ys) auto
    next
      case (Suc k)
      then have "ys ! k \<noteq> y" using h(7) i nth_mem [of k ys] by auto
      then show ?thesis using dll_nth [OF d, of "Suc i"] i Suc by (auto simp: nth_Cons split: nat.splits)
    qed
    then show ?thesis using d ty(2) unfolding dll_def by auto
  qed
  then have "dll ?s' (y # ys)" by simp
  moreover have "current_task ?s' \<in> set (y # ys)" using c by auto
  ultimately show ?thesis by blast
qed

text \<open>Removing the only task.\<close>

lemma remove_only_dll: "dll s [x] \<Longrightarrow> \<exists>s'. task_list_remove s x = Inr s' \<and> dll s' []"
  by (auto simp: task_list_remove_def dll_def)

text \<open>
  Removing a task between two others: its predecessor skips it, but the successor still points
  back to it.
\<close>

lemma remove_middle_prev:
  assumes d: "dll s (ys @ [a, x, b] @ zs)"
  shows "\<exists>s' tb. task_list_remove s x = Inr s' \<and> tasks s' b = Some tb \<and> t_prev tb = x"
proof -
  let ?xs = "ys @ [a, x, b] @ zs"
  have na: "?xs ! Suc (length ys) = x" "?xs ! Suc (Suc (length ys)) = b" "?xs ! length ys = a"
    by (simp_all add: nth_append)
  have xt: "\<exists>t. tasks s x = Some t \<and> t_next t = b \<and> t_prev t = a"
    using dll_nth [OF d, of "Suc (length ys)"] na by simp
  have bt: "\<exists>t. tasks s b = Some t \<and> t_prev t = x"
    using dll_nth [OF d, of "Suc (Suc (length ys))"] na by auto
  have "\<exists>t. tasks s a = Some t" using dll_nth [OF d, of "length ys"] na by auto
  then obtain t tb ta where t: "tasks s x = Some t" "t_next t = b" "t_prev t = a" "tasks s b = Some tb" "t_prev tb = x"
    "tasks s a = Some ta" using xt bt by blast
  have h: "task_list_head s \<noteq> x" "task_list_tail s \<noteq> x" "a \<noteq> 0" "x \<noteq> 0" "a \<noteq> b" "a \<noteq> x" "x \<noteq> b"
    using d by (auto simp: dll_def hd_append last_append split: if_splits)
  let ?s = "s\<lparr>tasks := (tasks s)(a \<mapsto> ta\<lparr>t_next := b\<rparr>)\<rparr>"
  let ?n = "if b = 0 then task_list_head s else b"
  have "task_list_remove s x = Inr (if x = current_task s then ?s\<lparr>current_task := ?n\<rparr> else ?s)"
    using h t by - (cases "current_task s = x", simp_all add: task_list_remove_def upd_task_Some deref_def task_get_next_def)
  then show ?thesis using t(4,5) h(5) by auto
qed

section \<open>Scheduling\<close>

text \<open>Switching to the next task, as the exit system call and the exception handler do.\<close>

definition reschedule :: "'a task_state_scheme \<Rightarrow> 'a task_state_scheme outcome" where
  "reschedule s = bind_r (task_get_next s) (\<lambda>t. task_exec s t)"

fun reschedules :: "nat \<Rightarrow> 'a task_state_scheme \<Rightarrow> 'a task_state_scheme outcome" where
  "reschedules 0 s = Inr s"
| "reschedules (Suc k) s = bind_r (reschedule s) (reschedules k)"

definition runnable :: "'a task_state_scheme \<Rightarrow> u32 list \<Rightarrow> bool" where
  "runnable s xs \<longleftrightarrow> (\<forall>x \<in> set xs. \<exists>t. tasks s x = Some t \<and> t_paging t \<noteq> 0)"

lemma reschedule_next:
  assumes d: "dll s xs" and r: "runnable s xs" and i: "i < length xs" "current_task s = xs ! i"
  shows "\<exists>s' t. reschedule s = Inr s' \<and> dll s' xs \<and> runnable s' xs \<and> current_task s' = xs ! (Suc i mod length xs) \<and>
    tasks s' = tasks s \<and> kmem s' = kmem s \<and> tasks s (xs ! (Suc i mod length xs)) = Some t \<and>
    current_process s' = t_process t \<and> cr3 s' = load32 (kmem s) (t_paging t) \<and> user_regs s' = Some (t_registers t)"
proof -
  let ?n = "xs ! (Suc i mod length xs)"
  have ne: "xs \<noteq> []" using i by auto
  have ml: "Suc i mod length xs < length xs" using i by (intro mod_less_divisor) linarith
  have nz: "?n \<noteq> 0" "xs ! i \<noteq> 0" using dll_nonzero [OF d ml] dll_nonzero [OF d i(1)] by simp_all
  obtain ti where ti: "tasks s (xs ! i) = Some ti" "t_next ti = (if Suc i < length xs then xs ! Suc i else 0)"
    using dll_nth [OF d i(1)] by blast
  obtain t where t: "tasks s ?n = Some t" "t_paging t \<noteq> 0"
    using r nth_mem [OF ml] unfolding runnable_def by blast
  have head: "task_list_head s = xs ! 0" using d ne by (simp add: dll_def hd_conv_nth)
  have nxt: "task_get_next s = Inr ?n"
  proof (cases "Suc i < length xs")
    case True
    moreover from this have "xs ! Suc i \<noteq> 0" using dll_nonzero [OF d] by blast
    ultimately show ?thesis using ti i(2) nz(2) by (simp add: task_get_next_def deref_def)
  next
    case False
    then have "Suc i = length xs" using i(1) by simp
    then show ?thesis using ti i(2) nz(2) head by (simp add: task_get_next_def deref_def)
  qed
  let ?s = "s\<lparr>current_task := ?n, current_process := t_process t, cr3 := load32 (kmem s) (t_paging t),
    current_pgd := load32 (kmem s) (t_paging t), user_regs := Some (t_registers t)\<rparr>"
  have "reschedule s = Inr ?s"
    using nxt t nz(1) by (simp add: reschedule_def task_exec_def deref_def paging_switch_def set_current_process_def idx_load_def)
  moreover have "dll ?s xs" using d by (simp add: dll_def)
  moreover have "runnable ?s xs" using r by (simp add: runnable_def)
  ultimately show ?thesis using t by auto
qed

lemma reschedules_round_robin:
  assumes "dll s xs" "runnable s xs" "i < length xs" "current_task s = xs ! i"
  shows "\<exists>s'. reschedules k s = Inr s' \<and> dll s' xs \<and> runnable s' xs \<and> current_task s' = xs ! ((i + k) mod length xs)"
  using assms
proof (induction k arbitrary: s i)
  case (Suc k)
  obtain s1 where s1: "reschedule s = Inr s1" "dll s1 xs" "runnable s1 xs" "current_task s1 = xs ! (Suc i mod length xs)"
    using reschedule_next [OF Suc.prems] by blast
  have "Suc i mod length xs < length xs" using Suc.prems(3) by (intro mod_less_divisor) linarith
  from Suc.IH [OF s1(2,3) this s1(4)] s1(1) show ?case by (simp add: mod_simps)
qed simp

lemma remove_end_dll:
  assumes "dll s xs" "current_task s \<in> set xs" "x = hd xs \<or> x = last xs"
  shows "\<exists>s'. task_list_remove s x = Inr s' \<and> dll s' (filter (\<lambda>y. y \<noteq> x) xs)"
proof (cases xs)
  case Nil
  with assms(2) show ?thesis by simp
next
  case (Cons a rest)
  have dist: "distinct xs" using assms(1) by (simp add: dll_def)
  show ?thesis
  proof (cases "rest = []")
    case True
    then show ?thesis using assms Cons remove_only_dll [of s a] by auto
  next
    case False
    show ?thesis
    proof (cases "x = hd xs")
      case True
      obtain b ys where "rest = b # ys" using False by (cases rest) auto
      then have xs: "xs = x # b # ys" using Cons True by simp
      then have "filter (\<lambda>y. y \<noteq> x) xs = b # ys" using dist by (auto simp: filter_id_conv)
      with remove_first_dll [of s x b ys] assms(1,2) show ?thesis unfolding xs by auto
    next
      case False
      then have x: "x = last xs" using assms(3) by simp
      obtain ys l where "xs = ys @ [l, x]"
      proof -
        have "butlast xs \<noteq> []" using Cons \<open>rest \<noteq> []\<close> by simp
        then have "xs = butlast (butlast xs) @ [last (butlast xs), x]"
          using Cons x append_butlast_last_id [of xs] append_butlast_last_id [of "butlast xs"] by (metis append.assoc append_Cons append_Nil list.distinct(1))
        then show thesis by (rule that)
      qed
      note xs = this
      have "filter (\<lambda>y. y \<noteq> x) xs = ys @ [l]" using dist by (auto simp: xs filter_id_conv)
      with remove_last_dll [of s ys l x] assms(1,2) show ?thesis unfolding xs by auto
    qed
  qed
qed

section \<open>A state with three tasks\<close>

definition demo_task :: "u32 \<Rightarrow> u32 \<Rightarrow> task" where
  "demo_task nxt prv = \<lparr>t_paging = 0x5000, t_registers = zero_registers, t_process = 0x6000, t_next = nxt, t_prev = prv\<rparr>"

definition three_tasks :: task_state where
  "three_tasks = elf_state.extend (terminal_state.extend demo_terminal_state (elf_state.fields Map.empty))
     (task_state.fields [0x1000 \<mapsto> demo_task 0x2000 0, 0x2000 \<mapsto> demo_task 0x3000 0x1000, 0x3000 \<mapsto> demo_task 0 0x2000,
        0x4000 \<mapsto> demo_task 0 0]
       Map.empty 0x1000 0x1000 0x3000 0 (replicate 12 0) 0 0x10 None)"

definition demo_frame :: interrupt_frame where
  "demo_frame = \<lparr>f_edi = 1, f_esi = 2, f_ebp = 3, f_unused_esp = 4, f_ebx = 5, f_edx = 6, f_ecx = 7, f_eax = 8,
     f_ip = 0x400010, f_cs = 0x1b, f_eflags = 0x202, f_esp = 0x3FEFF8, f_ss = 0x23\<rparr>"

lemma less_3: "i < (3 :: nat) \<longleftrightarrow> i = 0 \<or> i = 1 \<or> i = 2"
  by auto

lemma three_tasks_list:
  "dll three_tasks [0x1000, 0x2000, 0x3000]" "runnable three_tasks [0x1000, 0x2000, 0x3000]"
  "current_task three_tasks = 0x1000" "tasks three_tasks 0x4000 = Some (demo_task 0 0)"
  by (auto simp: dll_def runnable_def three_tasks_def elf_state.defs task_state.defs demo_task_def less_3 nth_Cons
    split: nat.splits)

section \<open>Properties\<close>

text \<open>
  C22. Scheduling is fair: from any running task of the list, switching to the next task reaches
  every task of the list within one round, without a fault and without changing the list.
\<close>

theorem every_task_gets_its_turn:
  assumes "dll s xs" "runnable s xs" "i < length xs" "current_task s = xs ! i" "j < length xs"
  shows "\<exists>k s'. k < length xs \<and> reschedules k s = Inr s' \<and> dll s' xs \<and> current_task s' = xs ! j"
proof -
  let ?k = "(j + (length xs - i)) mod length xs"
  have "?k < length xs" using assms(3) by (intro mod_less_divisor) linarith
  moreover have "(i + ?k) mod length xs = j" using assms(3,5) by (simp add: mod_simps)
  ultimately show ?thesis using reschedules_round_robin [OF assms(1-4), of ?k] by metis
qed

theorem every_task_gets_its_turn_witness:
  "\<exists>k s'. k < length [0x1000 :: u32, 0x2000, 0x3000] \<and> reschedules k three_tasks = Inr s' \<and> current_task s' = 0x3000"
  using every_task_gets_its_turn [OF three_tasks_list(1,2), of 0 2] three_tasks_list(3) by auto

text \<open>
  C24. The task list stays a doubly linked list when a new task is appended and when its first or
  its last task is removed; removal leaves exactly the other tasks in their order.
\<close>

theorem task_list_stays_linked:
  assumes "dll s xs" "current_task s \<in> set xs" "y \<notin> set xs" "y \<noteq> 0" "tasks s y = Some t" "t_prev t = 0" "t_next t = 0"
    "x = hd xs \<or> x = last xs"
  shows "(\<exists>s'. task_list_append s y = Inr s' \<and> dll s' (xs @ [y])) \<and>
    (\<exists>s'. task_list_remove s x = Inr s' \<and> dll s' (filter (\<lambda>y. y \<noteq> x) xs))"
  using append_dll [OF assms(1,3-7)] remove_end_dll [OF assms(1,2,8)] by blast

theorem task_list_stays_linked_witness:
  "(\<exists>s'. task_list_append three_tasks 0x4000 = Inr s' \<and> dll s' [0x1000, 0x2000, 0x3000, 0x4000]) \<and>
    (\<exists>s'. task_list_remove three_tasks 0x1000 = Inr s' \<and> dll s' [0x2000, 0x3000])"
  using task_list_stays_linked [OF three_tasks_list(1), of "0x4000" "demo_task 0 0" "0x1000"] three_tasks_list(3,4)
  by (simp add: demo_task_def)

text \<open>
  C32. Removing a task between two others leaves the back pointer of its successor on the removed
  task.
\<close>

theorem remove_between_leaves_stale_prev:
  assumes "dll s (ys @ [a, x, b] @ zs)"
  shows "\<exists>s' tb. task_list_remove s x = Inr s' \<and> tasks s' b = Some tb \<and> t_prev tb = x"
  by (rule remove_middle_prev [OF assms])

theorem remove_between_leaves_stale_prev_witness:
  "\<exists>s' tb. task_list_remove three_tasks 0x2000 = Inr s' \<and> tasks s' 0x3000 = Some tb \<and> t_prev tb = 0x2000"
  using remove_between_leaves_stale_prev [of three_tasks "[]" "0x1000" "0x2000" "0x3000" "[]"] three_tasks_list(1) by simp



end
