(* ===== verification/Process.thy ===== *)
theory Process
  imports Task
begin

text \<open>
  Processes: \<^verbatim>\<open>src/src/task/process.c\<close>. The structures are in \<^verbatim>\<open>Task\<close>.
\<close>

abbreviation (input) MAX_PROCESSES :: int where "MAX_PROCESSES \<equiv> 12"
abbreviation (input) PROCESS_MAX_ALLOCATIONS :: nat where "PROCESS_MAX_ALLOCATIONS \<equiv> 1024"
abbreviation (input) KEYBOARD_BUFFER_SIZE :: nat where "KEYBOARD_BUFFER_SIZE \<equiv> 1024"
abbreviation (input) MAX_CMMD_ARG_LEN :: u32 where "MAX_CMMD_ARG_LEN \<equiv> 32"
abbreviation (input) MAX_NUM_ARGS :: u32 where "MAX_NUM_ARGS \<equiv> 5"
abbreviation (input) COMMAND_LINE_ARG_VIRTUAL_ADDR :: u32 where "COMMAND_LINE_ARG_VIRTUAL_ADDR \<equiv> 0x02000000"
abbreviation (input) TASK_STACK_VIRT_ADDR_END :: u32 where "TASK_STACK_VIRT_ADDR_END \<equiv> 0x3FF000 - 16384"

definition upd_proc :: "'a task_state_scheme \<Rightarrow> u32 \<Rightarrow> (process \<Rightarrow> process) \<Rightarrow> 'a task_state_scheme outcome" where
  "upd_proc s p f = bind_r (deref (procs s) p) (\<lambda>pr. Inr (s\<lparr>procs := (procs s)(p \<mapsto> f pr)\<rparr>))"

text \<open>The page tables of the task of a process.\<close>

definition proc_paging :: "'a task_state_scheme \<Rightarrow> process \<Rightarrow> u32 outcome" where
  "proc_paging s pr = bind_r (deref (tasks s) (p_task pr)) (\<lambda>t. Inr (t_paging t))"

section \<open>The process table\<close>

definition zero_process :: process where
  "zero_process = \<lparr>pid = 0, p_filename = replicate 128 0, p_task = 0,
     mem_allocs = replicate PROCESS_MAX_ALLOCATIONS \<lparr>alloc_ptr = 0, alloc_size = 0\<rparr>, executable = 0, stack_addr = 0,
     p_size = 0, p_format = BINARY,
     keyboard = \<lparr>kb_buffer = replicate KEYBOARD_BUFFER_SIZE 0, kb_head = 0, kb_tail = 0\<rparr>,
     argc = 0, argv = 0, arg_block = 0\<rparr>"

definition process_init :: "'a task_state_scheme \<Rightarrow> u32 \<Rightarrow> 'a task_state_scheme" where
  "process_init s p = s\<lparr>procs := (procs s)(p \<mapsto> zero_process)\<rparr>"

definition get_current_process :: "'a task_state_scheme \<Rightarrow> u32" where
  "get_current_process s = current_process s"

definition process_get :: "'a task_state_scheme \<Rightarrow> int \<Rightarrow> u32 outcome" where
  "process_get s n = (if n < 0 \<or> n \<ge> MAX_PROCESSES then Inr 0 else nth_r (processes s) n)"

fun free_pid :: "u32 list \<Rightarrow> nat \<Rightarrow> int" where
  "free_pid [] i = - EISTAKEN"
| "free_pid (p # ps) i = (if p = 0 then int i else free_pid ps (Suc i))"

definition process_get_free_slot :: "'a task_state_scheme \<Rightarrow> int" where
  "process_get_free_slot s = free_pid (processes s) 0"

section \<open>Loading the executable\<close>

text \<open>The part of \<^verbatim>\<open>process_load_binary_executable\<close> between opening the file and the label \<^verbatim>\<open>out\<close>.\<close>

definition load_binary_body :: "device \<Rightarrow> 'a task_state_scheme \<Rightarrow> u32 \<Rightarrow> int \<Rightarrow> (int \<times> 'a task_state_scheme) outcome" where
  "load_binary_body dev s process fd =
     bind_r (fstat s fd zero_stat) (\<lambda>(rc, stat).
       if rc < 0 then Inr (rc, s)
       else bind_r (kzalloc s (stat_filesize stat)) (\<lambda>(exe, s).
         if exe = 0 then Inr (- ENOMEM, s)
         else bind_r (fread_mem dev s exe (stat_filesize stat) 1 fd) (\<lambda>(n, s).
           if sint n < 0 then Inr (sint n, s)
           else bind_r (upd_proc s process (\<lambda>p. p\<lparr>executable := exe, p_size := stat_filesize stat, p_format := BINARY\<rparr>))
             (\<lambda>s. Inr (sint n, s)))))"

definition process_load_binary_executable :: "device \<Rightarrow> 'a task_state_scheme \<Rightarrow> u8 list \<Rightarrow> u32 \<Rightarrow> (int \<times> 'a task_state_scheme) outcome" where
  "process_load_binary_executable dev s fname process =
     bind_r (fopen dev s fname (c_string ''r'')) (\<lambda>(fd, s).
       if fd < 0 then Inr (- EIO, s)
       else bind_r (load_binary_body dev s process fd) (\<lambda>(rc, s).
         bind_r (fclose s fd) (\<lambda>(_, s). Inr (rc, s))))"

definition process_load_elf_executable :: "device \<Rightarrow> 'a task_state_scheme \<Rightarrow> u8 list \<Rightarrow> u32 \<Rightarrow> (int \<times> 'a task_state_scheme) outcome" where
  "process_load_elf_executable dev s fname process =
     bind_r (elf_file_init dev s fname) (\<lambda>(rc, elf, s).
       if rc < 0
       then bind_r (print s (message ''process_load_elf_executable: error initializing elf_file'')) (\<lambda>s. Inr (rc, s))
       else bind_r (upd_proc s process (\<lambda>p. p\<lparr>p_format := ELF, executable := elf\<rparr>)) (\<lambda>s. Inr (0, s)))"

definition process_load_data :: "device \<Rightarrow> 'a task_state_scheme \<Rightarrow> u8 list \<Rightarrow> u32 \<Rightarrow> (int \<times> 'a task_state_scheme) outcome" where
  "process_load_data dev s fname process =
     bind_r (process_load_elf_executable dev s fname process) (\<lambda>(rc, s).
       if rc = - EIFORMAT then process_load_binary_executable dev s fname process else Inr (rc, s))"

section \<open>Mapping\<close>

definition create_mapping :: "'a task_state_scheme \<Rightarrow> u32 \<Rightarrow> u32 \<Rightarrow> u32 \<Rightarrow> u32 \<Rightarrow> int \<Rightarrow> (int \<times> 'a task_state_scheme) outcome" where
  "create_mapping s paging va pa pa_end flags =
     bind_r (paging_create_mapping (kmem s) paging va pa pa_end flags) (\<lambda>(rc, m). Inr (rc, s\<lparr>kmem := m\<rparr>))"

definition process_map_task_binary :: "'a task_state_scheme \<Rightarrow> process \<Rightarrow> (int \<times> 'a task_state_scheme) outcome" where
  "process_map_task_binary s pr =
     bind_r (proc_paging s pr) (\<lambda>pg.
       create_mapping s pg TASK_LOAD_VIRTUAL_ADDRESS (executable pr) (paging_align_address (executable pr + p_size pr)) 7)"

function map_elf_loop :: "'a task_state_scheme \<Rightarrow> process \<Rightarrow> elf_file \<Rightarrow> u32 \<Rightarrow> int \<Rightarrow> int \<Rightarrow> int \<Rightarrow>
    (int \<times> 'a task_state_scheme) outcome" where
  "map_elf_loop s pr ef phdr_table phnum i rc =
     (if i < phnum
      then bind_r (phdr_deref (kmem s) (phdr_table + 32 * of_int i)) (\<lambda>phdr.
        let phys = elf_file_get_segment_phys_addr ef phdr;
            pflags = (if p_flags phdr AND PF_W \<noteq> 0 then 7 else 5) in
        bind_r (proc_paging s pr) (\<lambda>pg.
          bind_r (create_mapping s pg (paging_align_to_lower_page (p_vaddr phdr)) (paging_align_to_lower_page phys)
              (paging_align_address (phys + p_memsz phdr)) pflags) (\<lambda>(rc, s).
            if rc < 0 then Inr (rc, s) else map_elf_loop s pr ef phdr_table phnum (i + 1) rc)))
      else Inr (rc, s))"
  by pat_completeness auto
termination
  by (relation "measure (\<lambda>(s, pr, ef, t, n, i, rc). nat (n - i))") auto

declare map_elf_loop.simps [simp del]

definition process_map_task_elf :: "'a task_state_scheme \<Rightarrow> process \<Rightarrow> (int \<times> 'a task_state_scheme) outcome" where
  "process_map_task_elf s pr =
     bind_r (deref (elf_files s) (executable pr)) (\<lambda>ef.
       bind_r (ehdr_deref (kmem s) (elf_get_ehdr ef)) (\<lambda>h.
         bind_r (elf_get_phdr_table (kmem s) (elf_get_ehdr ef)) (\<lambda>t.
           map_elf_loop s pr ef t (uint (e_phnum h)) 0 0)))"

definition process_map_task_memory :: "'a task_state_scheme \<Rightarrow> u32 \<Rightarrow> (int \<times> 'a task_state_scheme) outcome" where
  "process_map_task_memory s process =
     bind_r (deref (procs s) process) (\<lambda>pr. bind_r (proc_paging s pr) (\<lambda>pg.
       bind_r (create_mapping s pg TASK_STACK_VIRT_ADDR_END (stack_addr pr)
           (paging_align_address (stack_addr pr + TASK_STACK_SIZE)) 7) (\<lambda>(rc, s).
         if rc < 0 then Inr (rc, s)
         else bind_r (create_mapping s pg COMMAND_LINE_ARG_VIRTUAL_ADDR (arg_block pr)
             (paging_align_address (arg_block pr + (MAX_CMMD_ARG_LEN * MAX_NUM_ARGS + 4 * MAX_NUM_ARGS))) 7) (\<lambda>(rc, s).
           if rc < 0 then Inr (rc, s)
           else case p_format pr of
               ELF \<Rightarrow> process_map_task_elf s pr
             | BINARY \<Rightarrow> process_map_task_binary s pr))))"

section \<open>Freeing\<close>

fun free_allocations :: "'a task_state_scheme \<Rightarrow> process_mem_allocation list \<Rightarrow> 'a task_state_scheme outcome" where
  "free_allocations s [] = Inr s"
| "free_allocations s (a # as) =
     (if alloc_ptr a \<noteq> 0 then bind_r (kfree s (alloc_ptr a)) (\<lambda>(_, s). free_allocations s as)
      else free_allocations s as)"

definition process_free :: "'a task_state_scheme \<Rightarrow> u32 \<Rightarrow> 'a task_state_scheme outcome" where
  "process_free s process =
     bind_r (deref (procs s) process) (\<lambda>pr.
       bind_r (case p_format pr of
           ELF \<Rightarrow> if executable pr \<noteq> 0 then elf_file_close s (executable pr) else Inr s
         | BINARY \<Rightarrow> if executable pr \<noteq> 0 then bind_r (kfree s (executable pr)) (\<lambda>(_, s). Inr s) else Inr s) (\<lambda>s.
         bind_r (if stack_addr pr \<noteq> 0 then bind_r (kfree s (stack_addr pr)) (\<lambda>(_, s). Inr s) else Inr s) (\<lambda>s.
           free_allocations s (mem_allocs pr))))"

definition process_terminate :: "'a task_state_scheme \<Rightarrow> u32 \<Rightarrow> (int \<times> 'a task_state_scheme) outcome" where
  "process_terminate s process =
     bind_r (process_free s process) (\<lambda>s. bind_r (deref (procs s) process) (\<lambda>pr.
       bind_r (upd_r (processes s) (uint (pid pr)) 0) (\<lambda>ps. Inr (0, s\<lparr>processes := ps\<rparr>))))"

section \<open>Arguments\<close>

definition translate_arg_block_addr_to_userspace_addr :: "u32 \<Rightarrow> u32 \<Rightarrow> u32" where
  "translate_arg_block_addr_to_userspace_addr addr block =
     (if addr < block then 0 else COMMAND_LINE_ARG_VIRTUAL_ADDR + (addr - block))"

text \<open>\<^verbatim>\<open>strcpy\<close> in memory; \<open>None\<close> when it meets no terminator.\<close>

partial_function (option) mem_strcpy :: "mem \<Rightarrow> u32 \<Rightarrow> u32 \<Rightarrow> mem option" where
  "mem_strcpy m dest src =
     (if m src = 0 then Some (m(dest := 0)) else mem_strcpy (m(dest := m src)) (dest + 1) (src + 1))"

definition mem_strcpy_r :: "mem \<Rightarrow> u32 \<Rightarrow> u32 \<Rightarrow> mem outcome" where
  "mem_strcpy_r m dest src = (case mem_strcpy m dest src of None \<Rightarrow> Inl Diverge | Some m \<Rightarrow> Inr m)"

definition put_argv_argc_in_stack_mem :: "mem \<Rightarrow> u32 \<Rightarrow> int \<Rightarrow> u32 \<Rightarrow> mem" where
  "put_argv_argc_in_stack_mem m stack n args =
     (let m = store32 m (stack + TASK_STACK_SIZE - 4) (of_int n) in
      store32 m (stack + TASK_STACK_SIZE - 8) args)"

function arg_block_loop :: "mem \<Rightarrow> u32 \<Rightarrow> int \<Rightarrow> u32 \<Rightarrow> u32 \<Rightarrow> int \<Rightarrow> mem outcome" where
  "arg_block_loop m block n args arg_strings i =
     (if i < n
      then bind_r (idx_load m args (of_int i)) (\<lambda>a. bind_r (mem_strcpy_r m arg_strings a) (\<lambda>m.
        bind_r (idx_store m block (of_int i) (translate_arg_block_addr_to_userspace_addr arg_strings block)) (\<lambda>m.
          arg_block_loop m block n args (arg_strings + MAX_CMMD_ARG_LEN) (i + 1))))
      else Inr m)"
  by pat_completeness auto
termination
  by (relation "measure (\<lambda>(m, b, n, a, str, i). nat (n - i))") auto

declare arg_block_loop.simps [simp del]

definition load_arg_block :: "mem \<Rightarrow> u32 \<Rightarrow> int \<Rightarrow> u32 \<Rightarrow> mem outcome" where
  "load_arg_block m block n args = arg_block_loop m block n args (block + 4 * MAX_NUM_ARGS) 0"

text \<open>\<^verbatim>\<open>strnlen\<close> in memory.\<close>

fun mem_strnlen :: "mem \<Rightarrow> u32 \<Rightarrow> nat \<Rightarrow> nat" where
  "mem_strnlen m a 0 = 0"
| "mem_strnlen m a (Suc n) = (if m a = 0 then 0 else Suc (mem_strnlen m (a + 1) n))"

function stack_args_loop :: "mem \<Rightarrow> int \<Rightarrow> u32 \<Rightarrow> u32 \<Rightarrow> int \<Rightarrow> mem outcome" where
  "stack_args_loop m n args arg_strings i =
     (if i < n
      then bind_r (idx_load m args (of_int i)) (\<lambda>a.
        let arg_len = mem_strnlen m a (unat MAX_CMMD_ARG_LEN) in
        bind_r (mem_strcpy_r m arg_strings a) (\<lambda>m. stack_args_loop m n args (arg_strings + of_nat arg_len + 5) (i + 1)))
      else Inr m)"
  by pat_completeness auto
termination
  by (relation "measure (\<lambda>(m, n, a, str, i). nat (n - i))") auto

declare stack_args_loop.simps [simp del]

text \<open>An older way to pass the arguments, called nowhere; \<^verbatim>\<open>char **\<close> arithmetic is in units of 4 bytes.\<close>

definition load_process_stack_memory_with_args :: "mem \<Rightarrow> u32 \<Rightarrow> int \<Rightarrow> u32 \<Rightarrow> mem outcome" where
  "load_process_stack_memory_with_args m stack n args =
     (let m = store32 m (stack + TASK_STACK_SIZE - 4) (of_int n);
          argv_char_array = stack + TASK_STACK_SIZE - 12 in
      stack_args_loop m n args (argv_char_array + 4 * (MAX_CMMD_ARG_LEN + 1)) 0)"

section \<open>Loading a process\<close>

text \<open>
  The steps of \<^verbatim>\<open>process_load_for_slot\<close> after the structure was allocated and up to the label \<^verbatim>\<open>out\<close>.
  The byte behind \<^verbatim>\<open>filename\<close> in the structure is padding; \<^verbatim>\<open>strncpy\<close> may write its terminator there.
  The test \<^verbatim>\<open>task < 0\<close> compares a pointer and never holds, so that the result of \<^verbatim>\<open>task_new\<close> is
  used unchecked.
\<close>

definition load_slot_body :: "device \<Rightarrow> 'a task_state_scheme \<Rightarrow> u8 list \<Rightarrow> u32 \<Rightarrow> int \<Rightarrow> int \<Rightarrow> u32 \<Rightarrow>
    (int \<times> 'a task_state_scheme) outcome" where
  "load_slot_body dev s fname p n nargs args =
     bind_r (process_load_data dev s fname p) (\<lambda>(rc, s).
       if rc < 0 then Inr (rc, s)
       else bind_r (kzalloc s TASK_STACK_SIZE) (\<lambda>(stack, s).
         if stack = 0 then Inr (- ENOMEM, s)
         else
           let args = (if nargs = 0 then 0 else args);
               s = s\<lparr>kmem := put_argv_argc_in_stack_mem (kmem s) stack nargs COMMAND_LINE_ARG_VIRTUAL_ADDR\<rparr> in
           bind_r (deref (procs s) p) (\<lambda>pr. bind_r (strncpy (p_filename pr @ [0]) fname 128) (\<lambda>fn.
             bind_r (upd_proc s p (\<lambda>pr. pr\<lparr>argc := nargs, argv := args, p_filename := take 128 fn,
                 stack_addr := stack, pid := of_int n\<rparr>)) (\<lambda>s.
               bind_r (kzalloc s (MAX_CMMD_ARG_LEN * MAX_NUM_ARGS + 4 * MAX_NUM_ARGS)) (\<lambda>(block, s).
                 bind_r (upd_proc s p (\<lambda>pr. pr\<lparr>arg_block := block\<rparr>)) (\<lambda>s.
                   if block = 0 then Inr (- ENOMEM, s)
                   else bind_r (load_arg_block (kmem s) block nargs args) (\<lambda>m.
                     bind_r (task_new (s\<lparr>kmem := m\<rparr>) p) (\<lambda>(task, s).
                       bind_r (upd_proc s p (\<lambda>pr. pr\<lparr>p_task := task\<rparr>)) (\<lambda>s.
                         bind_r (process_map_task_memory s p) (\<lambda>(rc, s).
                           if rc < 0 then Inr (rc, s)
                           else bind_r (upd_r (processes s) n p) (\<lambda>ps. Inr (rc, s\<lparr>processes := ps\<rparr>)))))))))))))"

text \<open>
  When the slot is taken the code reaches \<^verbatim>\<open>out\<close> with an uninitialised pointer; when the structure
  cannot be allocated, with a null pointer. Both are faults. The second component is the
  process stored through the out parameter.
\<close>

definition process_load_for_slot :: "device \<Rightarrow> 'a task_state_scheme \<Rightarrow> u8 list \<Rightarrow> int \<Rightarrow> int \<Rightarrow> u32 \<Rightarrow>
    (int \<times> u32 \<times> 'a task_state_scheme) outcome" where
  "process_load_for_slot dev s fname n nargs args =
     bind_r (process_get s n) (\<lambda>old.
       if old \<noteq> 0 then Inl OutOfBounds
       else bind_r (kzalloc s 9388) (\<lambda>(p, s).
         if p = 0 then Inl NullDeref
         else bind_r (load_slot_body dev (process_init s p) fname p n nargs args) (\<lambda>(rc, s).
           if rc < 0
           then bind_r (deref (procs s) p) (\<lambda>pr.
             bind_r (if p_task pr \<noteq> 0 then bind_r (task_free s (p_task pr)) (\<lambda>(_, s). Inr s) else Inr s) (\<lambda>s.
               bind_r (process_free s p) (\<lambda>s. Inr (rc, 0, s))))
           else Inr (rc, p, s))))"

definition process_load_with_args :: "device \<Rightarrow> 'a task_state_scheme \<Rightarrow> u8 list \<Rightarrow> int \<Rightarrow> u32 \<Rightarrow>
    (int \<times> u32 \<times> 'a task_state_scheme) outcome" where
  "process_load_with_args dev s fname nargs args =
     (let n = process_get_free_slot s in
      if n < 0
      then bind_r (print s (message ''Could not load process.  Already at max processes.'')) (\<lambda>s. Inr (- EISTAKEN, 0, s))
      else process_load_for_slot dev s fname n nargs args)"

definition process_load :: "device \<Rightarrow> 'a task_state_scheme \<Rightarrow> u8 list \<Rightarrow> (int \<times> u32 \<times> 'a task_state_scheme) outcome" where
  "process_load dev s fname =
     (let n = process_get_free_slot s in
      if n < 0
      then bind_r (print s (message ''Could not load process.  Already at max processes.'')) (\<lambda>s. Inr (- EISTAKEN, 0, s))
      else process_load_for_slot dev s fname n 0 0)"

section \<open>Memory of a process\<close>

fun free_alloc_slot :: "process_mem_allocation list \<Rightarrow> nat \<Rightarrow> int" where
  "free_alloc_slot [] i = - ENOMEM"
| "free_alloc_slot (a # as) i = (if alloc_ptr a = 0 then int i else free_alloc_slot as (Suc i))"

definition process_get_free_memory_allocation_slot :: "process \<Rightarrow> int" where
  "process_get_free_memory_allocation_slot pr = free_alloc_slot (mem_allocs pr) 0"

definition set_alloc :: "'a task_state_scheme \<Rightarrow> u32 \<Rightarrow> int \<Rightarrow> u32 \<Rightarrow> u32 \<Rightarrow> 'a task_state_scheme outcome" where
  "set_alloc s process i ptr sz =
     bind_r (deref (procs s) process) (\<lambda>pr.
       bind_r (upd_r (mem_allocs pr) i \<lparr>alloc_ptr = ptr, alloc_size = sz\<rparr>) (\<lambda>as.
         Inr (s\<lparr>procs := (procs s)(process \<mapsto> pr\<lparr>mem_allocs := as\<rparr>)\<rparr>)))"

definition process_malloc_syscall_handler :: "'a task_state_scheme \<Rightarrow> u32 \<Rightarrow> u32 \<Rightarrow> (u32 \<times> 'a task_state_scheme) outcome" where
  "process_malloc_syscall_handler s process sz =
     bind_r (kzalloc s sz) (\<lambda>(ptr, s).
       if ptr = 0 then bind_r (kfree s ptr) (\<lambda>(_, s). Inr (0, s))
       else bind_r (deref (procs s) process) (\<lambda>pr.
         let index = process_get_free_memory_allocation_slot pr in
         if index < 0 then bind_r (kfree s ptr) (\<lambda>(_, s). Inr (0, s))
         else bind_r (proc_paging s pr) (\<lambda>pg.
           bind_r (create_mapping s pg ptr ptr (paging_align_address (ptr + sz)) 7) (\<lambda>(rc, s).
             if rc < 0 then bind_r (kfree s ptr) (\<lambda>(_, s). Inr (0, s))
             else bind_r (set_alloc s process index ptr sz) (\<lambda>s. Inr (ptr, s))))))"

fun find_alloc :: "process_mem_allocation list \<Rightarrow> u32 \<Rightarrow> nat \<Rightarrow> (nat \<times> process_mem_allocation) option" where
  "find_alloc [] addr i = None"
| "find_alloc (a # as) addr i = (if alloc_ptr a = addr then Some (i, a) else find_alloc as addr (Suc i))"

definition get_process_allocation :: "process \<Rightarrow> u32 \<Rightarrow> (nat \<times> process_mem_allocation) option" where
  "get_process_allocation pr addr = find_alloc (mem_allocs pr) addr 0"

definition process_free_syscall_handler :: "'a task_state_scheme \<Rightarrow> u32 \<Rightarrow> u32 \<Rightarrow> 'a task_state_scheme outcome" where
  "process_free_syscall_handler s process ptr =
     bind_r (deref (procs s) process) (\<lambda>pr.
       case get_process_allocation pr ptr of
         None \<Rightarrow> Inr s
       | Some (i, a) \<Rightarrow>
           bind_r (proc_paging s pr) (\<lambda>pg.
             bind_r (create_mapping s pg (alloc_ptr a) (alloc_ptr a) (paging_align_address (alloc_ptr a + alloc_size a)) 5)
               (\<lambda>(rc, s).
                 if rc < 0 then Inr s
                 else bind_r (kfree s ptr) (\<lambda>(_, s). set_alloc s process (int i) 0 0))))"

end
