(* ===== verification/Keyboard.thy ===== *)
theory Keyboard
  imports Process
begin

text \<open>
  The keyboard: \<^verbatim>\<open>src/src/keyboard/keyboard.c\<close> and \<^verbatim>\<open>src/src/keyboard/ps2_keyboard.c\<close>, and the registration of
  interrupt handlers of \<^verbatim>\<open>src/src/idt/idt.c\<close> that the driver uses. The circular buffer of a process is
  proved to be a first-in first-out queue.
\<close>

section \<open>Model\<close>

text \<open>The routines that are registered as handlers, and the drivers.\<close>

datatype interrupt_routine = idt_handle_user_process_exception | ps2_keyboard_handle_interrupt_routine

datatype keyboard_ptr = NoKeyboard | Ps2Keyboard

record keyboard_state = task_state +
  interrupt_handlers :: "interrupt_routine option list"
  keyboard_list_head :: keyboard_ptr
  keyboard_list_last :: keyboard_ptr
  ps2_next :: keyboard_ptr

abbreviation (input) CONIFEROS_TOTAL_INTERRUPTS :: int where "CONIFEROS_TOTAL_INTERRUPTS \<equiv> 512"
abbreviation (input) KEYBOARD_INTERRUPT_NO :: int where "KEYBOARD_INTERRUPT_NO \<equiv> 0x21"
abbreviation (input) PS2_PORT :: u16 where "PS2_PORT \<equiv> 0x64"
abbreviation (input) PS2_DATA_PORT :: u16 where "PS2_DATA_PORT \<equiv> 0x60"
abbreviation (input) KEY_RELEASED_BIT :: u8 where "KEY_RELEASED_BIT \<equiv> 0x80"

definition idt_register_interrupt_handler :: "'a keyboard_state_scheme \<Rightarrow> int \<Rightarrow> interrupt_routine \<Rightarrow>
    (int \<times> 'a keyboard_state_scheme) outcome" where
  "idt_register_interrupt_handler s intr handler =
     (if intr < 0 \<or> intr \<ge> CONIFEROS_TOTAL_INTERRUPTS then Inr (- EINVARG, s)
      else bind_r (upd_r (interrupt_handlers s) intr (Some handler)) (\<lambda>hs. Inr (0, s\<lparr>interrupt_handlers := hs\<rparr>)))"

subsection \<open>The circular buffer\<close>

definition increment_tail :: "'a terminal_state_scheme \<Rightarrow> keyboard_buffer \<Rightarrow> (keyboard_buffer \<times> 'a terminal_state_scheme) outcome" where
  "increment_tail s kb =
     (let next_tail_val = (kb_tail kb + 1) mod 1024 in
      bind_r (if next_tail_val = kb_head kb then print s (message ''ERROR: Keyboard buffer overflow'') else Inr s) (\<lambda>s.
        Inr (kb\<lparr>kb_tail := (kb_tail kb + 1) mod 1024\<rparr>, s)))"

definition increment_head :: "keyboard_buffer \<Rightarrow> keyboard_buffer" where
  "increment_head kb = kb\<lparr>kb_head := (kb_head kb + 1) mod 1024\<rparr>"

definition decrement_tail :: "keyboard_buffer \<Rightarrow> keyboard_buffer" where
  "decrement_tail kb =
     (if kb_tail kb = kb_head kb then kb
      else if kb_tail kb = 0 then kb\<lparr>kb_tail := 1024\<rparr>
      else kb\<lparr>kb_tail := kb_tail kb - 1\<rparr>)"

definition buffer_push :: "'a terminal_state_scheme \<Rightarrow> keyboard_buffer \<Rightarrow> u8 \<Rightarrow> (keyboard_buffer \<times> 'a terminal_state_scheme) outcome" where
  "buffer_push s kb c =
     bind_r (upd_r (kb_buffer kb) (kb_tail kb) c) (\<lambda>b. increment_tail s (kb\<lparr>kb_buffer := b\<rparr>))"

definition buffer_pop :: "keyboard_buffer \<Rightarrow> (u8 \<times> keyboard_buffer) outcome" where
  "buffer_pop kb =
     bind_r (nth_r (kb_buffer kb) (kb_head kb)) (\<lambda>val.
       if val = 0 then Inr (0, kb)
       else bind_r (upd_r (kb_buffer kb) (kb_head kb) 0) (\<lambda>b. Inr (val, increment_head (kb\<lparr>kb_buffer := b\<rparr>))))"

definition keyboard_push :: "'a task_state_scheme \<Rightarrow> u8 \<Rightarrow> 'a task_state_scheme outcome" where
  "keyboard_push s c =
     (let process = get_current_process s in
      if process = 0 then Inr s
      else if c = 0 then Inr s
      else bind_r (deref (procs s) process) (\<lambda>pr.
        bind_r (buffer_push s (keyboard pr) c) (\<lambda>(kb, s). upd_proc s process (\<lambda>pr. pr\<lparr>keyboard := kb\<rparr>))))"

definition keyboard_backspace :: "'a task_state_scheme \<Rightarrow> u32 \<Rightarrow> 'a task_state_scheme outcome" where
  "keyboard_backspace s process =
     upd_proc s process (\<lambda>pr. pr\<lparr>keyboard := (decrement_tail (keyboard pr))\<lparr>kb_tail := 0\<rparr>\<rparr>)"

definition keyboard_pop :: "'a task_state_scheme \<Rightarrow> (u8 \<times> 'a task_state_scheme) outcome" where
  "keyboard_pop s =
     (let task = get_current_task s in
      if task = 0 then Inr (0, s)
      else bind_r (deref (tasks s) task) (\<lambda>t. bind_r (deref (procs s) (t_process t)) (\<lambda>pr.
        bind_r (buffer_pop (keyboard pr)) (\<lambda>(val, kb).
          bind_r (upd_proc s (t_process t) (\<lambda>pr. pr\<lparr>keyboard := kb\<rparr>)) (\<lambda>s. Inr (val, s))))))"

subsection \<open>The PS/2 driver\<close>

definition keyboard_scan_set_one :: "u8 list" where
  "keyboard_scan_set_one =
    [0x00, 0x1B, 49, 50, 51, 52, 53,
     54, 55, 56, 57, 48, 45, 61,
     0x08, 9, 81, 87, 69, 82, 84,
     89, 85, 73, 79, 80, 91, 93,
     0x0d, 0x00, 65, 83, 68, 70, 71,
     72, 74, 75, 76, 59, 39, 96,
     0x00, 92, 90, 88, 67, 86, 66,
     78, 77, 44, 46, 47, 0x00, 42,
     0x00, 0x20, 0x00, 0x00, 0x00, 0x00,
     0x00, 0x00, 0x00, 0x00, 0x00, 0x00,
     0x00, 55, 56, 57, 45, 52, 53,
     54, 43, 49, 50, 51, 48, 46]"

definition enable_ps2_first_port :: "'a disk_state_scheme \<Rightarrow> 'a disk_state_scheme" where
  "enable_ps2_first_port s = s\<lparr>io_trace := outb (io_trace s) PS2_PORT 0xAE\<rparr>"

definition ps2_keyboard_init :: "'a keyboard_state_scheme \<Rightarrow> (int \<times> 'a keyboard_state_scheme) outcome" where
  "ps2_keyboard_init s =
     bind_r (idt_register_interrupt_handler s KEYBOARD_INTERRUPT_NO ps2_keyboard_handle_interrupt_routine) (\<lambda>(_, s).
       Inr (0, enable_ps2_first_port s))"

definition get_ps2_keyboard_driver :: keyboard_ptr where
  "get_ps2_keyboard_driver = Ps2Keyboard"

text \<open>The only driver, and so the only element whose \<^verbatim>\<open>next\<close> can be set, is the PS/2 keyboard.\<close>

definition keyboard_insert :: "'a keyboard_state_scheme \<Rightarrow> keyboard_ptr \<Rightarrow> (int \<times> 'a keyboard_state_scheme) outcome" where
  "keyboard_insert s kbd =
     (if kbd = NoKeyboard then Inl NullDeref
      else
        let s = (if keyboard_list_last s \<noteq> NoKeyboard then s\<lparr>ps2_next := kbd, keyboard_list_last := kbd\<rparr>
                 else s\<lparr>keyboard_list_head := kbd, keyboard_list_last := kbd\<rparr>) in
        ps2_keyboard_init s)"

definition keyboard_init :: "'a keyboard_state_scheme \<Rightarrow> 'a keyboard_state_scheme outcome" where
  "keyboard_init s = bind_r (keyboard_insert s get_ps2_keyboard_driver) (\<lambda>(_, s). Inr s)"

text \<open>The comparison is strict, so that the scan code one past the table reads past its end.\<close>

definition ps2_keyboard_scancode_to_char :: "'a terminal_state_scheme \<Rightarrow> u8 \<Rightarrow> (u8 \<times> 'a terminal_state_scheme) outcome" where
  "ps2_keyboard_scancode_to_char s scancode =
     (if unat scancode > length keyboard_scan_set_one
      then bind_r (print s (c_string ''ps2_keyboard.c scancode_to_char: invalid argument'')) (\<lambda>s. Inr (of_int (- EINVARG), s))
      else bind_r (nth_r keyboard_scan_set_one (uint scancode)) (\<lambda>c. Inr (c, s)))"

definition ps2_keyboard_handle_interrupt :: "device \<Rightarrow> 'a task_state_scheme \<Rightarrow> 'a task_state_scheme outcome" where
  "ps2_keyboard_handle_interrupt dev s =
     (let (scancode, tr) = insb dev (io_trace s) PS2_DATA_PORT;
          (_, tr) = insb dev tr PS2_DATA_PORT;
          s = s\<lparr>io_trace := tr\<rparr> in
      if scancode AND KEY_RELEASED_BIT \<noteq> 0 then Inr s
      else bind_r (ps2_keyboard_scancode_to_char s scancode) (\<lambda>(c, s).
        if c > 0 then keyboard_push s c else Inr s))"


section \<open>The buffer as a queue\<close>

text \<open>
  The interface of a bounded queue of nonzero bytes whose operations thread a state: \<open>holds b q\<close>
  relates the representation to the queue.
\<close>

locale byte_fifo =
  fixes holds :: "'b \<Rightarrow> u8 list \<Rightarrow> bool"
    and capacity :: nat
    and push :: "'s \<Rightarrow> 'b \<Rightarrow> u8 \<Rightarrow> ('b \<times> 's) outcome"
    and pop :: "'b \<Rightarrow> (u8 \<times> 'b) outcome"
  assumes push_holds: "holds b q \<Longrightarrow> length q < capacity \<Longrightarrow> c \<noteq> 0 \<Longrightarrow>
      \<exists>b' s'. push s b c = Inr (b', s') \<and> holds b' (q @ [c])"
    and pop_Cons: "holds b (c # q) \<Longrightarrow> \<exists>b'. pop b = Inr (c, b') \<and> holds b' q"
    and pop_Nil: "holds b [] \<Longrightarrow> pop b = Inr (0, b)"
begin

fun pushes :: "'s \<Rightarrow> 'b \<Rightarrow> u8 list \<Rightarrow> ('b \<times> 's) outcome" where
  "pushes s b [] = Inr (b, s)"
| "pushes s b (c # cs) = bind_r (push s b c) (\<lambda>(b, s). pushes s b cs)"

fun pops :: "'b \<Rightarrow> nat \<Rightarrow> (u8 list \<times> 'b) outcome" where
  "pops b 0 = Inr ([], b)"
| "pops b (Suc n) = bind_r (pop b) (\<lambda>(c, b). bind_r (pops b n) (\<lambda>(cs, b). Inr (c # cs, b)))"

lemma pushes_holds:
  "holds b q \<Longrightarrow> length q + length cs \<le> capacity \<Longrightarrow> 0 \<notin> set cs \<Longrightarrow>
    \<exists>b' s'. pushes s b cs = Inr (b', s') \<and> holds b' (q @ cs)"
proof (induction cs arbitrary: s b q)
  case (Cons c cs)
  then obtain b' s' where "push s b c = Inr (b', s')" "holds b' (q @ [c])"
    using push_holds [of b q c s] by auto
  with Cons.IH [of b' "q @ [c]" s'] Cons.prems show ?case by simp
qed simp

lemma pops_holds: "holds b (cs @ q) \<Longrightarrow> \<exists>b'. pops b (length cs) = Inr (cs, b') \<and> holds b' q"
proof (induction cs arbitrary: b)
  case (Cons c cs)
  then obtain b' where "pop b = Inr (c, b')" "holds b' (cs @ q)" using pop_Cons [of b c "cs @ q"] by auto
  with Cons.IH [of b'] show ?case by auto
qed simp

end

text \<open>The cells from the head on hold the queue, the rest of the buffer is zero.\<close>

definition kb_holds :: "keyboard_buffer \<Rightarrow> u8 list \<Rightarrow> bool" where
  "kb_holds kb q \<longleftrightarrow> length (kb_buffer kb) = 1024 \<and> length q \<le> 1024 \<and> 0 \<notin> set q \<and>
     (\<exists>h < 1024. kb_head kb = int h \<and> kb_tail kb = int ((h + length q) mod 1024) \<and>
       (\<forall>i < 1024. kb_buffer kb ! ((h + i) mod 1024) = (if i < length q then q ! i else 0)))"

lemma ring_index_inj: "(h + i) mod 1024 = (h + j) mod 1024 \<Longrightarrow> i < 1024 \<Longrightarrow> j < 1024 \<Longrightarrow> i = (j :: nat)"
proof (induction i j rule: linorder_wlog)
  case (le i j)
  then have "1024 dvd j - i" by (metis add_diff_cancel_left add_le_cancel_left mod_eq_dvd_iff_nat)
  moreover have "j - i < 1024" using le by linarith
  ultimately have "j - i = 0" by (metis gr_zeroI nat_dvd_not_less)
  with le show ?case by simp
qed simp

lemma print_message: "\<exists>s'. print s (message str) = Inr s'"
  by (simp add: print_cstr is_cstr_def message_def c_string_def)

lemma increment_tail_result:
  "\<exists>s'. increment_tail s kb = Inr (kb\<lparr>kb_tail := (kb_tail kb + 1) mod 1024\<rparr>, s') \<and> screen_only s s'"
proof -
  obtain s' where "print s (message ''ERROR: Keyboard buffer overflow'') = Inr s'" using print_message by blast
  with print_screen [OF this] screen_only_refl [of s] show ?thesis
    by (cases "(kb_tail kb + 1) mod 1024 = kb_head kb") (simp_all add: increment_tail_def)
qed

lemma buffer_push_holds:
  assumes "kb_holds kb q" "length q < 1024" "c \<noteq> 0"
  shows "\<exists>kb' s'. buffer_push s kb c = Inr (kb', s') \<and> kb_holds kb' (q @ [c]) \<and> screen_only s s'"
proof -
  obtain h where h: "h < 1024" "kb_head kb = int h" "kb_tail kb = int ((h + length q) mod 1024)"
    and cells: "\<And>i. i < 1024 \<Longrightarrow> kb_buffer kb ! ((h + i) mod 1024) = (if i < length q then q ! i else 0)"
    using assms(1) by (auto simp: kb_holds_def)
  have len: "length (kb_buffer kb) = 1024" and nz: "0 \<notin> set q" using assms(1) by (auto simp: kb_holds_def)
  let ?t = "(h + length q) mod 1024"
  let ?b = "(kb_buffer kb)[?t := c]"
  let ?kb = "kb\<lparr>kb_buffer := ?b, kb_tail := int ((h + length (q @ [c])) mod 1024)\<rparr>"
  have tl: "(int ?t + 1) mod 1024 = int ((h + length (q @ [c])) mod 1024)"
    by (simp add: zmod_int mod_simps ac_simps)
  obtain s' where "buffer_push s kb c = Inr (?kb, s')" "screen_only s s'"
    using increment_tail_result [of s "kb\<lparr>kb_buffer := ?b\<rparr>"] len tl
    by (auto simp: buffer_push_def h(3) upd_r_of_nat)
  moreover have "?b ! ((h + i) mod 1024) = (if i < length (q @ [c]) then (q @ [c]) ! i else 0)" if i: "i < 1024" for i
    using cells [OF i] len ring_index_inj [of h "length q" i] assms(2) i
    by (auto simp: nth_list_update nth_append less_Suc_eq)
  then have "kb_holds ?kb (q @ [c])"
    using assms(2,3) len nz h(1,2) unfolding kb_holds_def by (auto intro!: exI [of _ h])
  ultimately show ?thesis by blast
qed

lemma buffer_pop_Cons:
  assumes "kb_holds kb (c # q)"
  shows "\<exists>kb'. buffer_pop kb = Inr (c, kb') \<and> kb_holds kb' q"
proof -
  obtain h where h: "h < 1024" "kb_head kb = int h" "kb_tail kb = int ((h + length (c # q)) mod 1024)"
    and cells: "\<And>i. i < 1024 \<Longrightarrow> kb_buffer kb ! ((h + i) mod 1024) = (if i < length (c # q) then (c # q) ! i else 0)"
    using assms by (auto simp: kb_holds_def)
  have len: "length (kb_buffer kb) = 1024" and nz: "0 \<notin> set q" "c \<noteq> 0" "length q < 1024"
    using assms by (auto simp: kb_holds_def)
  let ?h = "Suc h mod 1024"
  let ?b = "(kb_buffer kb)[h := 0]"
  let ?kb = "kb\<lparr>kb_buffer := ?b, kb_head := int ?h\<rparr>"
  have first: "kb_buffer kb ! h = c" using cells [of 0] h(1) by simp
  have hd': "(int h + 1) mod 1024 = int ?h" by (simp add: zmod_int ac_simps)
  have pop: "buffer_pop kb = Inr (c, ?kb)"
    using h(1) len first nz(2) hd' by (simp add: buffer_pop_def increment_head_def h(2) nth_r_of_nat upd_r_of_nat)
  have "?b ! ((?h + i) mod 1024) = (if i < length q then q ! i else 0)" if i: "i < 1024" for i
  proof -
    have idx: "(?h + i) mod 1024 = (h + Suc i) mod 1024" by (simp add: mod_simps)
    show ?thesis
    proof (cases "i = 1023")
      case True
      then have "(h + Suc i) mod 1024 = h" using h(1) by simp
      then show ?thesis using True len h(1) nz(3) idx by simp
    next
      case False
      then have s: "Suc i < 1024" using i by simp
      then have "(h + Suc i) mod 1024 \<noteq> h" using ring_index_inj [of h "Suc i" 0] h(1) by auto
      then show ?thesis using cells [OF s] by (simp only: idx) simp
    qed
  qed
  moreover have "(h + length (c # q)) mod 1024 = (?h + length q) mod 1024" by (simp add: mod_simps)
  ultimately have "kb_holds ?kb q"
    using len nz h(3) unfolding kb_holds_def by (auto intro!: exI [of _ ?h])
  with pop show ?thesis by blast
qed

lemma buffer_pop_Nil: "kb_holds kb [] \<Longrightarrow> buffer_pop kb = Inr (0, kb)"
proof -
  assume "kb_holds kb []"
  then obtain h where h: "h < 1024" "kb_head kb = int h" "length (kb_buffer kb) = 1024"
    and cells: "\<And>i. i < 1024 \<Longrightarrow> kb_buffer kb ! ((h + i) mod 1024) = 0"
    by (auto simp: kb_holds_def)
  from h cells [of 0] have "nth_r (kb_buffer kb) (kb_head kb) = Inr 0" by (simp add: nth_r_of_nat)
  then show ?thesis by (simp add: buffer_pop_def)
qed

interpretation kbd: byte_fifo kb_holds 1024 buffer_push buffer_pop
  by unfold_locales (use buffer_push_holds in blast, use buffer_pop_Cons in blast, use buffer_pop_Nil in blast)

section \<open>Typing\<close>

text \<open>The current task belongs to the process \<open>p\<close>, which is current and whose buffer holds \<open>q\<close>.\<close>

definition typing :: "'a task_state_scheme \<Rightarrow> u32 \<Rightarrow> u8 list \<Rightarrow> bool" where
  "typing s p q \<longleftrightarrow> p \<noteq> 0 \<and> current_process s = p \<and> current_task s \<noteq> 0 \<and>
     (\<exists>t pr. tasks s (current_task s) = Some t \<and> t_process t = p \<and> procs s p = Some pr \<and> kb_holds (keyboard pr) q)"

lemma keyboard_push_typing:
  assumes "typing s p q" "length q < 1024" "c \<noteq> 0"
  shows "\<exists>s'. keyboard_push s c = Inr s' \<and> typing s' p (q @ [c])"
proof -
  obtain t pr where s: "p \<noteq> 0" "current_process s = p" "current_task s \<noteq> 0" "tasks s (current_task s) = Some t"
    "t_process t = p" "procs s p = Some pr" and kb: "kb_holds (keyboard pr) q"
    using assms(1) by (auto simp: typing_def)
  obtain kb' s' where b: "buffer_push s (keyboard pr) c = Inr (kb', s')" "kb_holds kb' (q @ [c])" and "screen_only s s'"
    using buffer_push_holds [OF kb assms(2,3)] by blast
  then obtain m r k where s': "s' = s\<lparr>kmem := m, terminal_row := r, terminal_col := k\<rparr>"
    unfolding screen_only_def by blast
  have "keyboard_push s c = Inr (s'\<lparr>procs := (procs s')(p \<mapsto> pr\<lparr>keyboard := kb'\<rparr>)\<rparr>)"
    using s assms(3) b(1) by (simp add: keyboard_push_def get_current_process_def deref_def upd_proc_def s')
  moreover have "typing (s'\<lparr>procs := (procs s')(p \<mapsto> pr\<lparr>keyboard := kb'\<rparr>)\<rparr>) p (q @ [c])"
    using s b(2) by (simp add: typing_def s')
  ultimately show ?thesis by blast
qed

lemma keyboard_pop_typing:
  assumes "typing s p q"
  shows "case q of [] \<Rightarrow> \<exists>s'. keyboard_pop s = Inr (0, s') \<and> typing s' p []
    | c # cs \<Rightarrow> \<exists>s'. keyboard_pop s = Inr (c, s') \<and> typing s' p cs"
proof -
  obtain t pr where s: "p \<noteq> 0" "current_process s = p" "current_task s \<noteq> 0" "tasks s (current_task s) = Some t"
    "t_process t = p" "procs s p = Some pr" and kb: "kb_holds (keyboard pr) q"
    using assms by (auto simp: typing_def)
  have pop: "keyboard_pop s = Inr (v, s\<lparr>procs := (procs s)(p \<mapsto> pr\<lparr>keyboard := kb'\<rparr>)\<rparr>)"
    if "buffer_pop (keyboard pr) = Inr (v, kb')" for v kb'
    using s that by (simp add: keyboard_pop_def get_current_task_def deref_def upd_proc_def)
  have keep: "typing (s\<lparr>procs := (procs s)(p \<mapsto> pr\<lparr>keyboard := kb'\<rparr>)\<rparr>) p q'" if "kb_holds kb' q'" for kb' q'
    using s that by (simp add: typing_def)
  show ?thesis
  proof (cases q)
    case Nil
    with pop [OF buffer_pop_Nil] keep [of "keyboard pr" "[]"] kb show ?thesis by simp
  next
    case (Cons c cs)
    then obtain kb' where "buffer_pop (keyboard pr) = Inr (c, kb')" "kb_holds kb' cs"
      using buffer_pop_Cons kb by blast
    with pop keep Cons show ?thesis by auto
  qed
qed

text \<open>The state of the kernel seen through \<^verbatim>\<open>keyboard_push\<close> and \<^verbatim>\<open>keyboard_pop\<close> is such a queue, too.\<close>

definition push_key :: "unit \<Rightarrow> 'a task_state_scheme \<Rightarrow> u8 \<Rightarrow> ('a task_state_scheme \<times> unit) outcome" where
  "push_key u s c = bind_r (keyboard_push s c) (\<lambda>s. Inr (s, u))"

interpretation kbd_sys: byte_fifo "\<lambda>s. typing s p" 1024 push_key keyboard_pop for p
proof unfold_locales
  show "\<exists>b' s'. push_key u b c = Inr (b', s') \<and> typing b' p (q @ [c])"
    if "typing b p q" "length q < 1024" "c \<noteq> 0" for b :: "'a task_state_scheme" and q c u
    using keyboard_push_typing [OF that] by (auto simp: push_key_def)
  show "\<exists>b'. keyboard_pop b = Inr (c, b') \<and> typing b' p q" if "typing b p (c # q)" for b :: "'a task_state_scheme" and c q
    using keyboard_pop_typing [OF that] by simp
  show "keyboard_pop b = Inr (0, b)" if "typing b p []" for b :: "'a task_state_scheme"
  proof -
    obtain t pr where s: "current_task b \<noteq> 0" "tasks b (current_task b) = Some t"
      "t_process t = p" "p \<noteq> 0" "procs b p = Some pr" and kb: "kb_holds (keyboard pr) []"
      using \<open>typing b p []\<close> by (auto simp: typing_def)
    then show ?thesis
      by (simp add: keyboard_pop_def get_current_task_def deref_def upd_proc_def buffer_pop_Nil [OF kb] map_upd_triv)
  qed
qed

text \<open>The keys in the order in which they arrive, and in which they are fetched.\<close>

fun keyboard_pushes :: "'a task_state_scheme \<Rightarrow> u8 list \<Rightarrow> 'a task_state_scheme outcome" where
  "keyboard_pushes s [] = Inr s"
| "keyboard_pushes s (c # cs) = bind_r (keyboard_push s c) (\<lambda>s. keyboard_pushes s cs)"

fun keyboard_pops :: "'a task_state_scheme \<Rightarrow> nat \<Rightarrow> (u8 list \<times> 'a task_state_scheme) outcome" where
  "keyboard_pops s 0 = Inr ([], s)"
| "keyboard_pops s (Suc n) = bind_r (keyboard_pop s) (\<lambda>(c, s). bind_r (keyboard_pops s n) (\<lambda>(cs, s). Inr (c # cs, s)))"

lemma pushes_eq: "kbd_sys.pushes u s cs = bind_r (keyboard_pushes s cs) (\<lambda>s. Inr (s, u))"
  by (induction cs arbitrary: s) (simp_all add: push_key_def bind_r_def split: sum.splits)

lemma pops_eq: "kbd_sys.pops s n = keyboard_pops s n"
  by (induction n arbitrary: s) simp_all

lemma typing_in_order:
  assumes "typing s p []" "length cs \<le> 1024" "0 \<notin> set cs"
  shows "\<exists>s1 s2. keyboard_pushes s cs = Inr s1 \<and> keyboard_pops s1 (length cs) = Inr (cs, s2) \<and>
    typing s2 p [] \<and> keyboard_pop s2 = Inr (0, s2)"
proof -
  obtain s1 where s1: "keyboard_pushes s cs = Inr s1" "typing s1 p cs"
    using kbd_sys.pushes_holds [OF assms(1), of cs "()"] assms(2,3) by (auto simp: pushes_eq bind_r_eq_Inr_iff)
  then obtain s2 where "keyboard_pops s1 (length cs) = Inr (cs, s2)" "typing s2 p []"
    using kbd_sys.pops_holds [of s1 p cs "[]"] by (auto simp: pops_eq)
  with s1(1) kbd_sys.pop_Nil show ?thesis by blast
qed

lemma buffer_pop_tail:
  "buffer_pop kb = Inr (c, kb') \<Longrightarrow> buffer_pop (kb\<lparr>kb_tail := x\<rparr>) = Inr (c, kb'\<lparr>kb_tail := x\<rparr>)"
  by (auto simp: buffer_pop_def bind_r_eq_Inr_iff increment_head_def split: if_splits)

lemma decrement_tail_eq: "(decrement_tail kb)\<lparr>kb_tail := x\<rparr> = kb\<lparr>kb_tail := x\<rparr>"
  by (simp add: decrement_tail_def)

section \<open>A state for examples\<close>

definition demo_task_state :: task_state where
  "demo_task_state = elf_state.extend (terminal_state.extend demo_terminal_state (elf_state.fields Map.empty))
     (task_state.fields [0x1000 \<mapsto> \<lparr>t_paging = 0, t_registers = zero_registers, t_process = 0x2000, t_next = 0, t_prev = 0\<rparr>]
       [0x2000 \<mapsto> zero_process] 0x1000 0x1000 0x1000 0x2000 (replicate 12 0) 0 0x10 None)"

lemma zero_keyboard: "kb_holds (keyboard zero_process) []"
  unfolding kb_holds_def by (auto simp: zero_process_def intro!: exI [of _ 0])

lemma demo_typing: "typing demo_task_state 0x2000 []"
  using zero_keyboard by (simp add: typing_def demo_task_state_def elf_state.defs task_state.defs)

lemma scan_set_length: "length keyboard_scan_set_one = 82"
  by (simp add: keyboard_scan_set_one_def)

lemma scancode_in_table: "unat sc < 82 \<Longrightarrow> ps2_keyboard_scancode_to_char s sc = Inr (keyboard_scan_set_one ! unat sc, s)"
  by (auto simp: ps2_keyboard_scancode_to_char_def nth_r_def scan_set_length)

lemma scancode_past_table: "unat sc = 82 \<Longrightarrow> ps2_keyboard_scancode_to_char s sc = Inl OutOfBounds"
  by (auto simp: ps2_keyboard_scancode_to_char_def nth_r_def scan_set_length)

lemma scancode_too_large:
  assumes "unat sc > 82"
  shows "\<exists>s'. ps2_keyboard_scancode_to_char s sc = Inr (254, s') \<and> screen_only s s'"
proof -
  obtain s' where p: "print s (c_string ''ps2_keyboard.c scancode_to_char: invalid argument'') = Inr s'"
    by (simp add: print_cstr is_cstr_def c_string_def)
  with assms print_screen [OF p] show ?thesis by (simp add: ps2_keyboard_scancode_to_char_def scan_set_length)
qed

lemma typing_screen:
  assumes "screen_only s s'" "typing s p q"
  shows "typing s' p q"
proof -
  obtain m r k where "s' = s\<lparr>kmem := m, terminal_row := r, terminal_col := k\<rparr>"
    using assms(1) unfolding screen_only_def by blast
  with assms(2) show ?thesis by (simp add: typing_def)
qed

section \<open>Properties\<close>

text \<open>
  C20. Keys are delivered in order: when the current task belongs to the current process and the
  buffer of that process is empty, up to 1024 nonzero characters that are pushed are popped in
  the order of their arrival, and the buffer is empty again.
\<close>

theorem keys_delivered_in_order:
  assumes "typing s p []" "length cs \<le> 1024" "0 \<notin> set cs"
  shows "\<exists>s1 s2. keyboard_pushes s cs = Inr s1 \<and> keyboard_pops s1 (length cs) = Inr (cs, s2) \<and>
    typing s2 p [] \<and> keyboard_pop s2 = Inr (0, s2)"
  by (rule typing_in_order [OF assms])

theorem keys_delivered_in_order_witness:
  "\<exists>s1 s2. keyboard_pushes demo_task_state [72, 73] = Inr s1 \<and> keyboard_pops s1 (length [72 :: u8, 73]) = Inr ([72, 73], s2) \<and>
    keyboard_pop s2 = Inr (0, s2)"
proof -
  have "length [72 :: u8, 73] \<le> 1024" "0 \<notin> set [72 :: u8, 73]" by simp_all
  from keys_delivered_in_order [OF demo_typing this] show ?thesis by blast
qed




text \<open>
  C21. From key press to buffer: the interrupt handler ignores released keys and codes without a
  character, appends the character of any other code of the table to the buffer of the current
  process, appends 254 for codes beyond the table, and reads past the table at code 82.
\<close>

theorem key_press_is_queued:
  assumes "typing s p q" "length q < 1024"
  shows "let sc = fst (insb dev (io_trace s) 0x60) in
    if sc AND 0x80 \<noteq> 0 \<or> (unat sc < 82 \<and> keyboard_scan_set_one ! unat sc = 0)
    then \<exists>tr. ps2_keyboard_handle_interrupt dev s = Inr (s\<lparr>io_trace := tr\<rparr>)
    else if unat sc = 82 then ps2_keyboard_handle_interrupt dev s = Inl OutOfBounds
    else \<exists>s'. ps2_keyboard_handle_interrupt dev s = Inr s' \<and>
      typing s' p (q @ [if unat sc < 82 then keyboard_scan_set_one ! unat sc else 254])"
proof -
  obtain sc tr where r: "insb dev (io_trace s) 0x60 = (sc, tr)" by force
  obtain d tr' where r': "insb dev tr 0x60 = (d, tr')" by force
  let ?s = "s\<lparr>io_trace := tr'\<rparr>"
  have ty: "typing ?s p q" using assms(1) by (simp add: typing_def)
  have h: "ps2_keyboard_handle_interrupt dev s =
      (if sc AND 0x80 \<noteq> 0 then Inr ?s
       else bind_r (ps2_keyboard_scancode_to_char ?s sc) (\<lambda>(c, s). if c > 0 then keyboard_push s c else Inr s))"
    by (simp add: ps2_keyboard_handle_interrupt_def r r')
  consider "unat sc < 82" | "unat sc = 82" | "unat sc > 82" by linarith
  then show ?thesis
  proof cases
    case 1
    then show ?thesis using keyboard_push_typing [OF ty assms(2), of "keyboard_scan_set_one ! unat sc"]
      by (auto simp: r h scancode_in_table word_gt_0)
  next
    case 2
    then show ?thesis by (auto simp: r h scancode_past_table)
  next
    case 3
    then obtain s1 where s1: "ps2_keyboard_scancode_to_char ?s sc = Inr (254, s1)" "screen_only ?s s1"
      using scancode_too_large by blast
    from keyboard_push_typing [OF typing_screen [OF s1(2) ty] assms(2), of 254] 3 s1(1) show ?thesis
      by (auto simp: r h word_gt_0)
  qed
qed

theorem key_press_is_queued_witness:
  "\<exists>s'. ps2_keyboard_handle_interrupt (\<lambda>_ _. 0x1E) demo_task_state = Inr s' \<and> typing s' 0x2000 [65]"
  using key_press_is_queued [OF demo_typing, of "\<lambda>_ _. 0x1E"]
  by (simp add: insb_def keyboard_scan_set_one_def)

end
