(* ===== verification/Interrupts.thy ===== *)
theory Interrupts
  imports Keyboard
begin

text \<open>
  Interrupts and system calls: \<^verbatim>\<open>src/src/idt/idt.c\<close> and \<^verbatim>\<open>src/src/isr80h/\<close>. The addresses of the assembly
  stubs (\<^verbatim>\<open>interrupt_pointer_table\<close>, \<^verbatim>\<open>isr80h_wrapper\<close>), of \<^verbatim>\<open>idt_zero\<close> and of local arrays on the kernel stack
  are parameters. Function pointers are constructors.
\<close>

section \<open>The interrupt descriptor table\<close>

record idt_entry =
  offset_1 :: u16
  selector :: u16
  zero :: u8
  type_attr :: u8
  offset_2 :: u16

record idtr_desc =
  idtr_limit :: u16
  idtr_base :: u32

datatype system_call = isr80h_sum | isr80h_print | isr80h_get_key_press | isr80h_put_char_on_display
  | isr80h_malloc | isr80h_free | isr80h_execve | isr80h_exit

record idt_state = keyboard_state +
  idt :: "idt_entry list"
  idtr :: idtr_desc
  isr80h_commands :: "system_call option list"

abbreviation (input) MAX_ISR80H_COMMANDS :: int where "MAX_ISR80H_COMMANDS \<equiv> 1024"
abbreviation (input) KERNEL_CODE_SELECTOR :: u16 where "KERNEL_CODE_SELECTOR \<equiv> 0x08"

definition idt_zero :: "'a terminal_state_scheme \<Rightarrow> 'a terminal_state_scheme outcome" where
  "idt_zero s = print s (message ''Divide by zero error'')"

definition idt_set :: "'a idt_state_scheme \<Rightarrow> int \<Rightarrow> u32 \<Rightarrow> 'a idt_state_scheme outcome" where
  "idt_set s i handler =
     bind_r (upd_r (idt s) i \<lparr>offset_1 = ucast (handler AND 0x0000ffff), selector = KERNEL_CODE_SELECTOR, zero = 0,
       type_attr = 0xEE, offset_2 = ucast (drop_bit 16 handler)\<rparr>) (\<lambda>t. Inr (s\<lparr>idt := t\<rparr>))"

function exception_loop :: "'a keyboard_state_scheme \<Rightarrow> int \<Rightarrow> 'a keyboard_state_scheme outcome" where
  "exception_loop s i =
     (if i < 0x20
      then bind_r (idt_register_interrupt_handler s i idt_handle_user_process_exception) (\<lambda>(_, s). exception_loop s (i + 1))
      else Inr s)"
  by pat_completeness auto
termination
  by (relation "measure (\<lambda>(s, i). nat (32 - i))") auto

declare exception_loop.simps [simp del]

definition register_handler_for_exceptions :: "'a keyboard_state_scheme \<Rightarrow> 'a keyboard_state_scheme outcome" where
  "register_handler_for_exceptions s = exception_loop s 0"

function idt_loop :: "'a idt_state_scheme \<Rightarrow> (int \<Rightarrow> u32) \<Rightarrow> int \<Rightarrow> 'a idt_state_scheme outcome" where
  "idt_loop s pointer_table i =
     (if i < CONIFEROS_TOTAL_INTERRUPTS
      then bind_r (idt_set s i (pointer_table i)) (\<lambda>s. idt_loop s pointer_table (i + 1))
      else Inr s)"
  by pat_completeness auto
termination
  by (relation "measure (\<lambda>(s, pt, i). nat (512 - i))") auto

declare idt_loop.simps [simp del]

definition zero_idt_entry :: idt_entry where
  "zero_idt_entry = \<lparr>offset_1 = 0, selector = 0, zero = 0, type_attr = 0, offset_2 = 0\<rparr>"

text \<open>\<open>idt_addr\<close>, \<open>zero_addr\<close> and \<open>wrapper\<close> are the addresses of the table and of the two special handlers.\<close>

definition idt_init :: "'a idt_state_scheme \<Rightarrow> (int \<Rightarrow> u32) \<Rightarrow> u32 \<Rightarrow> u32 \<Rightarrow> u32 \<Rightarrow> 'a idt_state_scheme outcome" where
  "idt_init s pointer_table idt_addr zero_addr wrapper =
     bind_r (idt_loop (s\<lparr>idt := replicate 512 zero_idt_entry, idtr := \<lparr>idtr_limit = 8 * 512 - 1, idtr_base = idt_addr\<rparr>\<rparr>)
         pointer_table 0) (\<lambda>s.
       bind_r (idt_set s 0 zero_addr) (\<lambda>s. bind_r (idt_set s 0x80 wrapper) (\<lambda>s. register_handler_for_exceptions s)))"

section \<open>Registration of system calls\<close>

definition isr80h_register_command :: "'a idt_state_scheme \<Rightarrow> int \<Rightarrow> system_call \<Rightarrow> 'a idt_state_scheme outcome" where
  "isr80h_register_command s command_id command =
     (if command_id < 0 \<or> command_id \<ge> MAX_ISR80H_COMMANDS
      then Inl (Panic (''The command_id is out of bounds'' @ [CHR 0x0A]))
      else bind_r (nth_r (isr80h_commands s) command_id) (\<lambda>old.
        if old \<noteq> None then Inl (Panic (''You'' @ [CHR 0x27] @ ''re attempting to overwrite an existing command'' @ [CHR 0x0A]))
        else bind_r (upd_r (isr80h_commands s) command_id (Some command)) (\<lambda>cmds. Inr (s\<lparr>isr80h_commands := cmds\<rparr>))))"

definition isr80h_register_commands :: "'a idt_state_scheme \<Rightarrow> 'a idt_state_scheme outcome" where
  "isr80h_register_commands s =
     bind_r (isr80h_register_command s 0 isr80h_sum) (\<lambda>s.
     bind_r (isr80h_register_command s 1 isr80h_print) (\<lambda>s.
     bind_r (isr80h_register_command s 2 isr80h_get_key_press) (\<lambda>s.
     bind_r (isr80h_register_command s 3 isr80h_put_char_on_display) (\<lambda>s.
     bind_r (isr80h_register_command s 4 isr80h_malloc) (\<lambda>s.
     bind_r (isr80h_register_command s 5 isr80h_free) (\<lambda>s.
     bind_r (isr80h_register_command s 6 isr80h_execve) (\<lambda>s.
     isr80h_register_command s 7 isr80h_exit)))))))"

section \<open>System calls\<close>

definition isr80h_command_0_sum :: "'a task_state_scheme \<Rightarrow> (u32 \<times> 'a task_state_scheme) outcome" where
  "isr80h_command_0_sum s =
     bind_r (task_get_stack_item s (get_current_task s) 0) (\<lambda>(n1, s).
       bind_r (task_get_stack_item s (get_current_task s) 1) (\<lambda>(n2, s). Inr (n1 + n2, s)))"

definition isr80h_command_1_print :: "'a task_state_scheme \<Rightarrow> u8 list \<Rightarrow> (u32 \<times> 'a task_state_scheme) outcome" where
  "isr80h_command_1_print s buf =
     bind_r (task_get_stack_item s (get_current_task s) 0) (\<lambda>(user_message, s).
       bind_r (copy_string_from_user_task s (get_current_task s) user_message buf 1024) (\<lambda>(_, buf, s).
         bind_r (print s buf) (\<lambda>s. Inr (0, s))))"

definition isr80h_command_2_get_key_press :: "'a task_state_scheme \<Rightarrow> (u32 \<times> 'a task_state_scheme) outcome" where
  "isr80h_command_2_get_key_press s = bind_r (keyboard_pop s) (\<lambda>(c, s). Inr (scast c, s))"

definition isr80h_command_3_put_char_on_display :: "'a task_state_scheme \<Rightarrow> (u32 \<times> 'a task_state_scheme) outcome" where
  "isr80h_command_3_put_char_on_display s =
     bind_r (task_get_stack_item s (get_current_task s) 0) (\<lambda>(c, s). Inr (0, terminal_write_char s (ucast c) 15))"

definition isr80h_command_4_malloc :: "'a task_state_scheme \<Rightarrow> (u32 \<times> 'a task_state_scheme) outcome" where
  "isr80h_command_4_malloc s =
     bind_r (task_get_stack_item s (get_current_task s) 0) (\<lambda>(sz, s).
       bind_r (deref (tasks s) (get_current_task s)) (\<lambda>t. process_malloc_syscall_handler s (t_process t) sz))"

definition isr80h_command_5_free :: "'a task_state_scheme \<Rightarrow> (u32 \<times> 'a task_state_scheme) outcome" where
  "isr80h_command_5_free s =
     bind_r (task_get_stack_item s (get_current_task s) 0) (\<lambda>(ptr, s).
       bind_r (deref (tasks s) (get_current_task s)) (\<lambda>t.
         bind_r (process_free_syscall_handler s (t_process t) ptr) (\<lambda>s. Inr (0, s))))"

subsection \<open>Execve\<close>

definition virt_store32 :: "mem \<Rightarrow> u32 \<Rightarrow> u32 \<Rightarrow> u32 \<Rightarrow> mem outcome" where
  "virt_store32 m dir va v =
     bind_r (virt_store m dir va (ucast v)) (\<lambda>m. bind_r (virt_store m dir (va + 1) (ucast (drop_bit 8 v))) (\<lambda>m.
       bind_r (virt_store m dir (va + 2) (ucast (drop_bit 16 v))) (\<lambda>m. virt_store m dir (va + 3) (ucast (drop_bit 24 v)))))"

function copy_pointers_loop :: "mem \<Rightarrow> u32 \<Rightarrow> u32 \<Rightarrow> u32 \<Rightarrow> int \<Rightarrow> int \<Rightarrow> mem outcome" where
  "copy_pointers_loop m dir kernel_argv argv_usr n i =
     (if i < n
      then bind_r (virt_load32 m dir (argv_usr + 4 * of_int i)) (\<lambda>p.
        bind_r (virt_store32 m dir (kernel_argv + 4 * of_int i) p) (\<lambda>m. copy_pointers_loop m dir kernel_argv argv_usr n (i + 1)))
      else Inr m)"
  by pat_completeness auto
termination
  by (relation "measure (\<lambda>(m, d, k, a, n, i). nat (n - i))") auto

declare copy_pointers_loop.simps [simp del]

definition copy_argv_pointers_from_user_task :: "'a task_state_scheme \<Rightarrow> u32 \<Rightarrow> u32 \<Rightarrow> u32 \<Rightarrow> int \<Rightarrow>
    (int \<times> 'a task_state_scheme) outcome" where
  "copy_argv_pointers_from_user_task s task argv_usr kernel_argv n =
     (if n * 32 \<ge> 4096 then Inr (- EINVARG, s)
      else bind_r (deref (tasks s) task) (\<lambda>t. bind_r (get_pgd (kmem s) (t_paging t)) (\<lambda>dir.
        bind_r (paging_get_pte (kmem s) dir kernel_argv) (\<lambda>old_entry.
          bind_r (paging_map_range (kmem s) (t_paging t) kernel_argv kernel_argv 1 7) (\<lambda>(_, m).
            bind_r (paging_switch (s\<lparr>kmem := m\<rparr>) (t_paging t)) (\<lambda>s.
              bind_r (copy_pointers_loop (kmem s) (cr3 s) kernel_argv argv_usr n 0) (\<lambda>m.
                bind_r (swap_kernel_page_tables (s\<lparr>kmem := m\<rparr>)) (\<lambda>s.
                  bind_r (paging_set (kmem s) dir kernel_argv old_entry) (\<lambda>(rc, m).
                    Inr (if rc < 0 then - EIO else 0, s\<lparr>kmem := m\<rparr>))))))))))"

function alloc_args_loop :: "'a kstate_scheme \<Rightarrow> u32 \<Rightarrow> int \<Rightarrow> int \<Rightarrow> 'a kstate_scheme outcome" where
  "alloc_args_loop s args n i =
     (if i < n
      then bind_r (kmalloc s 32) (\<lambda>(p, s). bind_r (idx_store (kmem s) args (of_int i) p) (\<lambda>m.
        alloc_args_loop (s\<lparr>kmem := m\<rparr>) args n (i + 1)))
      else Inr s)"
  by pat_completeness auto
termination
  by (relation "measure (\<lambda>(s, a, n, i). nat (n - i))") auto

declare alloc_args_loop.simps [simp del]

text \<open>The strings are copied into heap blocks, which are a page long.\<close>

function copy_args_loop :: "'a task_state_scheme \<Rightarrow> u32 \<Rightarrow> u32 \<Rightarrow> u32 \<Rightarrow> int \<Rightarrow> int \<Rightarrow> 'a task_state_scheme outcome" where
  "copy_args_loop s task kernel_argv args n i =
     (if i < n
      then bind_r (idx_load (kmem s) args (of_int i)) (\<lambda>dest.
        if dest = 0 then Inl NullDeref
        else bind_r (copy_string_from_user_task s task (load32 (kmem s) (kernel_argv + 4 * of_int i))
            (load_bytes (kmem s) dest 4096) 32) (\<lambda>(_, bs, s).
          copy_args_loop (s\<lparr>kmem := store_bytes (kmem s) dest bs\<rparr>) task kernel_argv args n (i + 1)))
      else Inr s)"
  by pat_completeness auto
termination
  by (relation "measure (\<lambda>(s, t, k, a, n, i). nat (n - i))") auto

declare copy_args_loop.simps [simp del]

text \<open>\<open>fname\<close> is the uninitialised local buffer, \<open>kernel_argv\<close> the address of the local array \<^verbatim>\<open>argv_kernel_copy\<close>.\<close>

definition isr80h_command_6_execve :: "device \<Rightarrow> 'a task_state_scheme \<Rightarrow> u8 list \<Rightarrow> u32 \<Rightarrow> (u32 \<times> 'a task_state_scheme) outcome" where
  "isr80h_command_6_execve dev s fname kernel_argv =
     (let task = get_current_task s in
      bind_r (task_get_stack_item s task 0) (\<lambda>(n, s).
      bind_r (task_get_stack_item s task 1) (\<lambda>(argv_usr, s).
      bind_r (task_get_stack_item s task 2) (\<lambda>(filename_usr, s).
      bind_r (copy_string_from_user_task s task filename_usr fname 128) (\<lambda>(_, fname, s).
      bind_r (copy_argv_pointers_from_user_task s task argv_usr kernel_argv (sint n)) (\<lambda>(_, s).
      bind_r (kmalloc s (n * 4)) (\<lambda>(args, s).
      bind_r (alloc_args_loop s args (sint n) 0) (\<lambda>s.
      bind_r (copy_args_loop s task kernel_argv args (sint n) 0) (\<lambda>s.
      bind_r (process_load_with_args dev s fname (sint n) args) (\<lambda>(rc, process, s).
        if rc < 0 then Inr (0, s)
        else bind_r (deref (procs s) process) (\<lambda>pr. bind_r (task_exec s (p_task pr)) (\<lambda>s. Inr (0, s)))))))))))))"

definition isr80h_command_7_exit :: "'a task_state_scheme \<Rightarrow> (u32 \<times> 'a task_state_scheme) outcome" where
  "isr80h_command_7_exit s =
     bind_r (process_terminate s (get_current_process s)) (\<lambda>(_, s).
       bind_r (task_get_next s) (\<lambda>t. bind_r (task_exec s t) (\<lambda>s. Inr (0, s))))"

section \<open>Dispatch\<close>

text \<open>The local buffers of the commands: their uninitialised content and the address of the array.\<close>

record locals =
  l_buf :: "u8 list"
  l_filename :: "u8 list"
  l_argv :: u32

definition run_command :: "device \<Rightarrow> locals \<Rightarrow> 'a task_state_scheme \<Rightarrow> system_call \<Rightarrow> (u32 \<times> 'a task_state_scheme) outcome" where
  "run_command dev l s cmd = (case cmd of
      isr80h_sum \<Rightarrow> isr80h_command_0_sum s
    | isr80h_print \<Rightarrow> isr80h_command_1_print s (l_buf l)
    | isr80h_get_key_press \<Rightarrow> isr80h_command_2_get_key_press s
    | isr80h_put_char_on_display \<Rightarrow> isr80h_command_3_put_char_on_display s
    | isr80h_malloc \<Rightarrow> isr80h_command_4_malloc s
    | isr80h_free \<Rightarrow> isr80h_command_5_free s
    | isr80h_execve \<Rightarrow> isr80h_command_6_execve dev s (l_filename l) (l_argv l)
    | isr80h_exit \<Rightarrow> isr80h_command_7_exit s)"

definition isr80h_handle_command :: "device \<Rightarrow> locals \<Rightarrow> 'a idt_state_scheme \<Rightarrow> int \<Rightarrow> (u32 \<times> 'a idt_state_scheme) outcome" where
  "isr80h_handle_command dev l s command_id =
     (if command_id < 0 \<or> command_id \<ge> MAX_ISR80H_COMMANDS then Inr (0, s)
      else bind_r (nth_r (isr80h_commands s) command_id) (\<lambda>command_func.
        case command_func of None \<Rightarrow> Inr (0, s) | Some cmd \<Rightarrow> run_command dev l s cmd))"

definition isr80h_handler :: "device \<Rightarrow> locals \<Rightarrow> 'a idt_state_scheme \<Rightarrow> int \<Rightarrow> interrupt_frame \<Rightarrow> (u32 \<times> 'a idt_state_scheme) outcome" where
  "isr80h_handler dev l s command_id frame =
     bind_r (swap_kernel_page_tables s) (\<lambda>s. bind_r (task_current_save_state s frame) (\<lambda>s.
       bind_r (isr80h_handle_command dev l s command_id) (\<lambda>(res, s).
         bind_r (swap_curr_task_page_tables s) (\<lambda>(_, s). Inr (res, s)))))"

definition handle_user_process_exception :: "'a task_state_scheme \<Rightarrow> 'a task_state_scheme outcome" where
  "handle_user_process_exception s =
     bind_r (process_terminate s (get_current_process s)) (\<lambda>(_, s). bind_r (task_get_next s) (\<lambda>t. task_exec s t))"

definition run_interrupt :: "device \<Rightarrow> 'a task_state_scheme \<Rightarrow> interrupt_routine \<Rightarrow> 'a task_state_scheme outcome" where
  "run_interrupt dev s r = (case r of
      idt_handle_user_process_exception \<Rightarrow> handle_user_process_exception s
    | ps2_keyboard_handle_interrupt_routine \<Rightarrow> ps2_keyboard_handle_interrupt dev s)"

definition interrupt_handler :: "device \<Rightarrow> 'a keyboard_state_scheme \<Rightarrow> int \<Rightarrow> interrupt_frame \<Rightarrow> 'a keyboard_state_scheme outcome" where
  "interrupt_handler dev s intr frame =
     bind_r (swap_kernel_page_tables s) (\<lambda>s. bind_r (nth_r (interrupt_handlers s) intr) (\<lambda>h.
       bind_r (case h of None \<Rightarrow> Inr s
               | Some r \<Rightarrow> bind_r (task_current_save_state s frame) (\<lambda>s. run_interrupt dev s r)) (\<lambda>s.
         bind_r (swap_curr_task_page_tables s) (\<lambda>(_, s).
           Inr (s\<lparr>io_trace := outb (io_trace s) 0x20 0x20\<rparr>)))))"

section \<open>How the processor reads a gate\<close>

definition gate_offset :: "idt_entry \<Rightarrow> u32" where
  "gate_offset e = ucast (offset_1 e) OR push_bit 16 (ucast (offset_2 e))"

text \<open>A gate of the kernel: present, privilege level 3, 32-bit interrupt gate, in the kernel code segment.\<close>

definition kernel_gate :: "idt_entry \<Rightarrow> u32 \<Rightarrow> bool" where
  "kernel_gate e handler \<longleftrightarrow> gate_offset e = handler \<and> selector e = 8 \<and> zero e = 0 \<and>
     bit (type_attr e) 7 \<and> (drop_bit 5 (type_attr e) AND 3) = 3 \<and> type_attr e AND 0x1F = 0x0E"

definition gate_for :: "u32 \<Rightarrow> idt_entry" where
  "gate_for handler = \<lparr>offset_1 = ucast (handler AND 0x0000ffff), selector = 0x08, zero = 0, type_attr = 0xEE,
     offset_2 = ucast (drop_bit 16 handler)\<rparr>"

lemma gate_for_reads: "kernel_gate (gate_for h) h"
proof -
  have m: "(0xFFFF :: u32) = mask 16" by (simp add: mask_eq_exp_minus_1)
  have "(ucast (ucast (h AND 0xFFFF) :: u16) :: u32) OR push_bit 16 (ucast (ucast (drop_bit 16 h) :: u16)) = h"
    unfolding m by (intro bit_word_eqI) (auto simp: bit_simps not_less)
  moreover have "bit (0xEE :: u8) 7" "(drop_bit 5 (0xEE :: u8)) AND 3 = 3" "(0xEE :: u8) AND 0x1F = 0x0E" by (simp_all add: bit_simps)
  ultimately show ?thesis by (simp add: kernel_gate_def gate_offset_def gate_for_def)
qed

lemma idt_set_eq: "0 \<le> i \<Longrightarrow> nat i < length (idt s) \<Longrightarrow> idt_set s i h = Inr (s\<lparr>idt := (idt s)[nat i := gate_for h]\<rparr>)"
  by (simp add: idt_set_def gate_for_def)

lemma idt_loop_eq:
  "0 \<le> i \<Longrightarrow> i \<le> 512 \<Longrightarrow> length (idt s) = 512 \<Longrightarrow>
    \<exists>t. idt_loop s pt i = Inr (s\<lparr>idt := t\<rparr>) \<and> length t = 512 \<and>
      (\<forall>j < 512. t ! j = (if i \<le> int j then gate_for (pt (int j)) else idt s ! j))"
proof (induction s pt i rule: idt_loop.induct)
  case (1 s pt i)
  show ?case
  proof (cases "i < 512")
    case True
    let ?s = "s\<lparr>idt := (idt s)[nat i := gate_for (pt i)]\<rparr>"
    have set: "idt_set s i (pt i) = Inr ?s" using 1(2-4) True by (intro idt_set_eq) auto
    obtain t where t: "idt_loop ?s pt (i + 1) = Inr (?s\<lparr>idt := t\<rparr>)" "length t = 512"
      "\<And>j. j < 512 \<Longrightarrow> t ! j = (if i + 1 \<le> int j then gate_for (pt (int j)) else idt ?s ! j)"
      using 1(1)[OF True set] 1(2-4) True by auto
    have "t ! j = (if i \<le> int j then gate_for (pt (int j)) else idt s ! j)" if "j < 512" for j
    proof (cases "int j = i")
      case True
      then show ?thesis using t(3)[OF that] 1(4) that by auto
    next
      case False
      then have "nat i \<noteq> j" "(i + 1 \<le> int j) = (i \<le> int j)" using 1(2) by auto
      then show ?thesis using t(3)[OF that] by simp
    qed
    moreover have "idt_loop s pt i = Inr (s\<lparr>idt := t\<rparr>)" using True set t(1) by (subst idt_loop.simps) simp
    ultimately show ?thesis using t(2) by blast
  next
    case False
    then show ?thesis using 1(3,4) by (subst idt_loop.simps) (intro exI [of _ "idt s"], auto)
  qed
qed

lemma exception_loop_eq:
  "0 \<le> i \<Longrightarrow> i \<le> 32 \<Longrightarrow> length (interrupt_handlers s) = 512 \<Longrightarrow>
    \<exists>hs. exception_loop s i = Inr (s\<lparr>interrupt_handlers := hs\<rparr>) \<and> length hs = 512 \<and>
      (\<forall>j < 512. hs ! j = (if i \<le> int j \<and> j < 32 then Some idt_handle_user_process_exception else interrupt_handlers s ! j))"
proof (induction s i rule: exception_loop.induct)
  case (1 s i)
  show ?case
  proof (cases "i < 32")
    case True
    let ?s = "s\<lparr>interrupt_handlers := (interrupt_handlers s)[nat i := Some idt_handle_user_process_exception]\<rparr>"
    have reg: "idt_register_interrupt_handler s i idt_handle_user_process_exception = Inr (0, ?s)"
      using 1(2-4) True by (simp add: idt_register_interrupt_handler_def)
    obtain hs where hs: "exception_loop ?s (i + 1) = Inr (?s\<lparr>interrupt_handlers := hs\<rparr>)" "length hs = 512"
      "\<And>j. j < 512 \<Longrightarrow> hs ! j = (if i + 1 \<le> int j \<and> j < 32 then Some idt_handle_user_process_exception else interrupt_handlers ?s ! j)"
      using 1(1)[OF _ reg] 1(2-4) True by auto
    have "hs ! j = (if i \<le> int j \<and> j < 32 then Some idt_handle_user_process_exception else interrupt_handlers s ! j)" if "j < 512" for j
    proof (cases "int j = i")
      case True
      then show ?thesis using hs(3)[OF that] 1(4) that \<open>i < 32\<close> by auto
    next
      case False
      then have "nat i \<noteq> j" "(i + 1 \<le> int j) = (i \<le> int j)" using 1(2) by auto
      then show ?thesis using hs(3)[OF that] by simp
    qed
    moreover have "exception_loop s i = Inr (s\<lparr>interrupt_handlers := hs\<rparr>)" using True reg hs(1) by (subst exception_loop.simps) simp
    ultimately show ?thesis using hs(2) by blast
  next
    case False
    then show ?thesis using 1(3,4) by (subst exception_loop.simps) (intro exI [of _ "interrupt_handlers s"], auto)
  qed
qed

lemma idt_init_result:
  assumes "length (interrupt_handlers s) = 512"
  shows "\<exists>t hs. idt_init s pt base zero_addr wrapper =
      Inr (s\<lparr>idt := t, idtr := \<lparr>idtr_limit = 4095, idtr_base = base\<rparr>, interrupt_handlers := hs\<rparr>) \<and> length t = 512 \<and> length hs = 512 \<and>
    (\<forall>i < 512. kernel_gate (t ! i) (if i = 0 then zero_addr else if i = 0x80 then wrapper else pt (int i))) \<and>
    (\<forall>i < 512. hs ! i = (if i < 32 then Some idt_handle_user_process_exception else interrupt_handlers s ! i))"
proof -
  let ?s = "s\<lparr>idt := replicate 512 zero_idt_entry, idtr := \<lparr>idtr_limit = 4095, idtr_base = base\<rparr>\<rparr>"
  obtain t where t: "idt_loop ?s pt 0 = Inr (?s\<lparr>idt := t\<rparr>)" "length t = 512" "\<And>j. j < 512 \<Longrightarrow> t ! j = gate_for (pt (int j))"
    using idt_loop_eq [of 0 ?s pt] by auto
  let ?t = "t[0 := gate_for zero_addr, 0x80 := gate_for wrapper]"
  let ?s2 = "?s\<lparr>idt := ?t\<rparr>"
  obtain hs where hs: "exception_loop ?s2 0 = Inr (?s2\<lparr>interrupt_handlers := hs\<rparr>)" "length hs = 512"
    "\<And>j. j < 512 \<Longrightarrow> hs ! j = (if j < 32 then Some idt_handle_user_process_exception else interrupt_handlers s ! j)"
    using exception_loop_eq [of 0 ?s2] assms by auto
  have "idt_init s pt base zero_addr wrapper = Inr (?s2\<lparr>interrupt_handlers := hs\<rparr>)"
    using t(1,2) hs(1) by (simp add: idt_init_def register_handler_for_exceptions_def idt_set_eq)
  moreover have "kernel_gate (?t ! i) (if i = 0 then zero_addr else if i = 0x80 then wrapper else pt (int i))" if "i < 512" for i
    using t(2) t(3)[OF that] gate_for_reads that by (simp add: nth_list_update)
  ultimately show ?thesis using t(2) hs(2,3) by (intro exI [of _ ?t] exI [of _ hs]) simp
qed

section \<open>Dispatch\<close>

text \<open>The system calls by number.\<close>

definition system_calls :: "system_call list" where
  "system_calls = [isr80h_sum, isr80h_print, isr80h_get_key_press, isr80h_put_char_on_display,
     isr80h_malloc, isr80h_free, isr80h_execve, isr80h_exit]"

definition system_call_table :: "system_call option list" where
  "system_call_table = map Some system_calls @ replicate 1016 None"

lemma register_command_eq:
  "0 \<le> i \<Longrightarrow> i < 1024 \<Longrightarrow> length (isr80h_commands s) = 1024 \<Longrightarrow> isr80h_commands s ! nat i = None \<Longrightarrow>
    isr80h_register_command s i c = Inr (s\<lparr>isr80h_commands := (isr80h_commands s)[nat i := Some c]\<rparr>)"
  by (simp add: isr80h_register_command_def)

lemma empty_table: "replicate 1024 (None :: system_call option) = [None, None, None, None, None, None, None, None] @ replicate 1016 None"
  by (simp add: replicate_app_Cons_same flip: replicate_Suc)

lemma register_commands_table:
  assumes "isr80h_commands s = replicate 1024 None"
  shows "isr80h_register_commands s = Inr (s\<lparr>isr80h_commands := system_call_table\<rparr>)"
  unfolding isr80h_register_commands_def system_call_table_def system_calls_def
  by (simp add: register_command_eq assms empty_table)

lemma handle_command_table:
  assumes "isr80h_commands s = system_call_table"
  shows "isr80h_handle_command dev l s n = (if 0 \<le> n \<and> n < 8 then run_command dev l s (system_calls ! nat n) else Inr (0, s))"
proof -
  have "length system_calls = 8" by (simp add: system_calls_def)
  then show ?thesis using assms by (auto simp: isr80h_handle_command_def system_call_table_def nth_append)
qed

text \<open>The registers of an interrupt frame.\<close>

definition frame_registers :: "interrupt_frame \<Rightarrow> registers" where
  "frame_registers f = \<lparr>r_edi = f_edi f, r_esi = f_esi f, r_ebp = f_ebp f, r_ebx = f_ebx f, r_edx = f_edx f,
     r_ecx = f_ecx f, r_eax = f_eax f, r_ip = f_ip f, r_cs = f_cs f, r_eflags = f_eflags f, r_esp = f_esp f, r_ss = f_ss f\<rparr>"

lemma save_state_eq:
  "current_task s \<noteq> 0 \<Longrightarrow> tasks s (current_task s) = Some t \<Longrightarrow>
    task_current_save_state s f = Inr (s\<lparr>tasks := (tasks s)(current_task s \<mapsto> t\<lparr>t_registers := frame_registers f\<rparr>)\<rparr>)"
  by (cases "t_registers t") (simp add: task_current_save_state_def get_current_task_def upd_task_def frame_registers_def)

lemma paging_switch_eq: "p \<noteq> 0 \<Longrightarrow> paging_switch s p = Inr (s\<lparr>cr3 := load32 (kmem s) p, current_pgd := load32 (kmem s) p\<rparr>)"
  by (simp add: paging_switch_def idx_load_def)

text \<open>Reading a word of the user stack leaves the kernel page tables in place.\<close>

lemma stack_item_eq:
  assumes "tasks s p = Some t" "t_paging t \<noteq> 0" "kernel_pages s \<noteq> 0" "0 \<le> i"
    "virt_load32 (kmem s) (load32 (kmem s) (t_paging t)) (r_esp (t_registers t) + 4 * of_int i) = Inr w"
  shows "task_get_stack_item s p i =
    Inr (w, s\<lparr>seg_regs := 0x10, cr3 := load32 (kmem s) (kernel_pages s), current_pgd := load32 (kmem s) (kernel_pages s)\<rparr>)"
  using assms by (simp add: task_get_stack_item_def swap_task_page_tables_def swap_kernel_page_tables_def paging_switch_eq)

section \<open>Properties\<close>

text \<open>
  C34. The descriptor table: wherever the assembly stubs are, \<open>idt_init\<close> gives a table of 512
  gates through which the processor reaches, at privilege level 3 and in the kernel code segment,
  the divide handler at 0, the system call wrapper at 0x80 and the stub of its number elsewhere;
  the first 32 interrupts terminate the process, and the other handlers stay.
\<close>

theorem idt_init_installs_gates:
  assumes "length (interrupt_handlers s) = 512"
  shows "\<exists>s'. idt_init s pointer_table base zero_addr wrapper = Inr s' \<and> length (idt s') = 512 \<and>
    idtr s' = \<lparr>idtr_limit = 8 * 512 - 1, idtr_base = base\<rparr> \<and>
    (\<forall>i < 512. kernel_gate (idt s' ! i) (if i = 0 then zero_addr else if i = 0x80 then wrapper else pointer_table (int i))) \<and>
    (\<forall>i < 512. interrupt_handlers s' ! i = (if i < 32 then Some idt_handle_user_process_exception else interrupt_handlers s ! i))"
  using idt_init_result [OF assms, of pointer_table base zero_addr wrapper] by fastforce

definition demo_mem :: mem where
  "demo_mem = store32 (store32 (store32 (store32 (\<lambda>_. 0) 0x5000 0x6000) 0x6000 0x7007) 0x7000 0x8007) 0x8010 0x41"

definition demo_idt_state :: idt_state where
  "demo_idt_state = keyboard_state.extend (task_state.extend
      (demo_task_state\<lparr>kmem := demo_mem, kernel_pages := 0x5000,
        tasks := [0x1000 \<mapsto> \<lparr>t_paging = 0x5000, t_registers = zero_registers, t_process = 0x2000, t_next = 0, t_prev = 0\<rparr>]\<rparr>)
      (keyboard_state.fields (replicate 512 None) NoKeyboard NoKeyboard NoKeyboard))
    (idt_state.fields [] \<lparr>idtr_limit = 0, idtr_base = 0\<rparr> (replicate 1024 None))"

theorem idt_init_installs_gates_witness:
  "\<exists>s'. idt_init demo_idt_state (\<lambda>i. 0x100000 + 16 * of_int i) 0x200000 0x300000 0x400000 = Inr s' \<and>
    kernel_gate (idt s' ! 0) 0x300000 \<and> kernel_gate (idt s' ! 0x80) 0x400000 \<and> kernel_gate (idt s' ! 0x21) 0x100210 \<and>
    interrupt_handlers s' ! 14 = Some idt_handle_user_process_exception \<and> interrupt_handlers s' ! 0x21 = None"
proof -
  have d: "length (interrupt_handlers demo_idt_state) = 512" "interrupt_handlers demo_idt_state ! 0x21 = None"
    by (simp_all add: demo_idt_state_def keyboard_state.defs task_state.defs idt_state.defs)
  let ?pt = "\<lambda>i. 0x100000 + 16 * of_int i :: u32"
  obtain s' where s': "idt_init demo_idt_state ?pt 0x200000 0x300000 0x400000 = Inr s'"
    and g: "\<And>i. i < 512 \<Longrightarrow> kernel_gate (idt s' ! i) (if i = 0 then 0x300000 else if i = 0x80 then 0x400000 else ?pt (int i))"
    and h: "\<And>i. i < 512 \<Longrightarrow> interrupt_handlers s' ! i = (if i < 32 then Some idt_handle_user_process_exception else interrupt_handlers demo_idt_state ! i)"
    using idt_init_installs_gates [OF d(1), of ?pt "0x200000" "0x300000" "0x400000"] by blast
  show ?thesis using s' g [of 0] g [of "0x80"] g [of "0x21"] h [of 14] h [of "0x21"] d(2) by (intro exI [of _ s']) simp
qed

text \<open>
  C33. A system call from user mode to the screen and back: after the registration of the system
  calls on an empty table, interrupt 0x80 with command 3 saves the registers of the frame in the
  current task, reads the word on top of the user stack through the page tables of the task,
  shows its low byte under the cursor, changes no other memory, and returns 0 with the page tables
  and segment registers of the task.
\<close>

theorem put_char_system_call:
  assumes "isr80h_commands s = replicate 1024 None" "current_task s \<noteq> 0" "tasks s (current_task s) = Some t"
    "t_paging t \<noteq> 0" "kernel_pages s \<noteq> 0"
    "virt_load32 (kmem s) (load32 (kmem s) (t_paging t)) (f_esp frame) = Inr w"
    "(ucast w :: u8) \<noteq> 10" "(ucast w :: u8) \<noteq> 8" "unat (terminal_col s) < 80" "cursor s < 1600"
  shows "\<exists>s1 s2. isr80h_register_commands s = Inr s1 \<and> isr80h_handler dev l s1 3 frame = Inr (0, s2) \<and>
    kmem s2 = store16 (kmem s) (video_addr (int (cursor s))) (terminal_make_char (ucast w) 15) \<and> cursor s2 = Suc (cursor s) \<and>
    tasks s2 (current_task s) = Some (t\<lparr>t_registers := frame_registers frame\<rparr>) \<and> current_task s2 = current_task s \<and>
    cr3 s2 = load32 (kmem s2) (t_paging t) \<and> seg_regs s2 = 0x23"
proof -
  let ?s1 = "s\<lparr>isr80h_commands := system_call_table\<rparr>" and ?k = "load32 (kmem s) (kernel_pages s)"
  let ?t = "t\<lparr>t_registers := frame_registers frame\<rparr>"
  let ?s2 = "?s1\<lparr>seg_regs := 0x10, cr3 := ?k, current_pgd := ?k, tasks := (tasks s)(current_task s \<mapsto> ?t)\<rparr>"
  have swap: "swap_kernel_page_tables ?s1 = Inr (?s1\<lparr>seg_regs := 0x10, cr3 := ?k, current_pgd := ?k\<rparr>)"
    using assms(5) by (simp add: swap_kernel_page_tables_def paging_switch_eq)
  have save: "task_current_save_state (?s1\<lparr>seg_regs := 0x10, cr3 := ?k, current_pgd := ?k\<rparr>) frame = Inr ?s2"
    using save_state_eq [of "?s1\<lparr>seg_regs := 0x10, cr3 := ?k, current_pgd := ?k\<rparr>" t frame] assms(2,3) by simp
  have item: "task_get_stack_item ?s2 (current_task s) 0 = Inr (w, ?s2)"
    using stack_item_eq [of ?s2 "current_task s" ?t 0 w] assms(4-6) by (simp add: frame_registers_def)
  have c: "cursor ?s2 = cursor s" by (simp add: cursor_def)
  have "\<exists>r k. terminal_write_char ?s2 (ucast w) 15 = ?s2\<lparr>kmem := store16 (kmem ?s2) (video_addr (int (cursor ?s2)))
      (terminal_make_char (ucast w) 15), terminal_row := r, terminal_col := k\<rparr> \<and> 80 * unat r + unat k = Suc (cursor ?s2) \<and> unat k < 80"
    by (rule write_plain [OF assms(7,8)]) (use assms(9,10) c in simp_all)
  then obtain r k where wr: "terminal_write_char ?s2 (ucast w) 15 = ?s2\<lparr>kmem := store16 (kmem s) (video_addr (int (cursor s)))
      (terminal_make_char (ucast w) 15), terminal_row := r, terminal_col := k\<rparr>" "80 * unat r + unat k = Suc (cursor s)"
    unfolding c by (elim exE conjE) simp
  have cmd: "isr80h_handle_command dev l ?s2 3 = Inr (0, terminal_write_char ?s2 (ucast w) 15)"
    using item by (simp add: handle_command_table system_calls_def run_command_def isr80h_command_3_put_char_on_display_def get_current_task_def)
  show ?thesis using register_commands_table [OF assms(1)] swap save cmd wr assms(4)
    by (simp add: isr80h_handler_def swap_curr_task_page_tables_def paging_switch_eq cursor_def)
qed

theorem put_char_system_call_witness:
  "\<exists>s1 s2. isr80h_register_commands demo_idt_state = Inr s1 \<and>
    isr80h_handler (\<lambda>_ _. 0) \<lparr>l_buf = [], l_filename = [], l_argv = 0\<rparr> s1 3 (demo_frame\<lparr>f_esp := 0x10\<rparr>) = Inr (0, s2) \<and>
    load16 (kmem s2) (video_addr 80) = terminal_make_char 0x41 15 \<and> cursor s2 = 81 \<and> seg_regs s2 = 0x23"
proof -
  let ?t = "\<lparr>t_paging = 0x5000, t_registers = zero_registers, t_process = 0x2000, t_next = 0, t_prev = 0\<rparr>"
  have s: "isr80h_commands demo_idt_state = replicate 1024 None" "current_task demo_idt_state = 0x1000"
    "tasks demo_idt_state 0x1000 = Some ?t" "kernel_pages demo_idt_state = 0x5000" "kmem demo_idt_state = demo_mem"
    "terminal_col demo_idt_state = 0" "cursor demo_idt_state = 80"
    by (simp_all add: demo_idt_state_def keyboard_state.defs task_state.defs idt_state.defs demo_task_state_def elf_state.defs terminal_state.defs
      demo_terminal_state_def vfs_state.defs cursor_def)
  have "virt_load32 demo_mem (load32 demo_mem 0x5000) 0x10 = Inr 0x41"
    by (simp add: virt_load32_def virt_load_def mmu_translate_def mmu_pde_def mmu_pte_def demo_mem_def load32_def store32_def)
  then obtain s1 s2 where "isr80h_register_commands demo_idt_state = Inr s1"
    "isr80h_handler (\<lambda>_ _. 0) \<lparr>l_buf = [], l_filename = [], l_argv = 0\<rparr> s1 3 (demo_frame\<lparr>f_esp := 0x10\<rparr>) = Inr (0, s2)"
    "kmem s2 = store16 demo_mem (video_addr 80) (terminal_make_char 0x41 15)" "cursor s2 = 81" "seg_regs s2 = 0x23"
    using put_char_system_call [of demo_idt_state ?t "demo_frame\<lparr>f_esp := 0x10\<rparr>" "0x41" "\<lambda>_ _. 0"
      "\<lparr>l_buf = [], l_filename = [], l_argv = 0\<rparr>"] s by auto
  then show ?thesis by simp
qed

end
