(* ===== verification/Kernel_Main.thy ===== *)
theory Kernel_Main
  imports Gdt Mount Interrupts
begin

text \<open>
  Start-up: \<^verbatim>\<open>kernel_main\<close> of \<^verbatim>\<open>src/src/kernel.c\<close>, the task state segment of \<^verbatim>\<open>src/src/task/tss.h\<close> and the Rust
  function that is called as a test. What the linker fixes (addresses of tables and of assembly
  stubs) and the bytes found where the heap table is placed are parameters. Loading the
  descriptor table, the task register and enabling paging are assembly; they are state
  components.
\<close>

section \<open>State\<close>

record tss =
  tss_prev_task_link :: u32
  tss_esp0 :: u32
  tss_ss0 :: u32
  tss_esp1 :: u32
  tss_ss1 :: u32
  tss_esp2 :: u32
  tss_ss2 :: u32
  tss_cr3 :: u32
  tss_eip :: u32
  tss_eflags :: u32
  tss_eax :: u32
  tss_ecx :: u32
  tss_edx :: u32
  tss_ebx :: u32
  tss_esp :: u32
  tss_ebp :: u32
  tss_esi :: u32
  tss_edi :: u32
  tss_es :: u32
  tss_cs :: u32
  tss_ss :: u32
  tss_ds :: u32
  tss_fs :: u32
  tss_gs :: u32
  tss_ldt_seg_selector :: u32
  tss_io_map_base_addr :: u32
  tss_ssp :: u32

definition zero_tss :: tss where
  "zero_tss = \<lparr>tss_prev_task_link = 0, tss_esp0 = 0, tss_ss0 = 0, tss_esp1 = 0, tss_ss1 = 0, tss_esp2 = 0, tss_ss2 = 0,
     tss_cr3 = 0, tss_eip = 0, tss_eflags = 0, tss_eax = 0, tss_ecx = 0, tss_edx = 0, tss_ebx = 0, tss_esp = 0, tss_ebp = 0,
     tss_esi = 0, tss_edi = 0, tss_es = 0, tss_cs = 0, tss_ss = 0, tss_ds = 0, tss_fs = 0, tss_gs = 0,
     tss_ldt_seg_selector = 0, tss_io_map_base_addr = 0, tss_ssp = 0\<rparr>"

record main_state = idt_state +
  gdt_raw :: "u8 list list"
  gdtr :: "u32 \<times> int"
  kernel_tss :: tss
  task_register :: int
  paging_enabled :: bool

record boot_params =
  heap_table_mem :: "u8 list"
  gdt_raw_addr :: u32
  tss_addr :: u32
  interrupt_pointer_table :: "int \<Rightarrow> u32"
  idt_addr :: u32
  idt_zero_addr :: u32
  isr80h_wrapper_addr :: u32

abbreviation (input) TOTAL_GDT_SEGMENTS :: int where "TOTAL_GDT_SEGMENTS \<equiv> 6"
abbreviation (input) TSS_GDT_INDEX :: int where "TSS_GDT_INDEX \<equiv> 5"
abbreviation (input) KERNEL_STACK_ADDR :: u32 where "KERNEL_STACK_ADDR \<equiv> 0x600000"
abbreviation (input) KERNEL_DATA_SELECTOR :: u32 where "KERNEL_DATA_SELECTOR \<equiv> 0x10"

section \<open>Start-up\<close>

text \<open>The library is built for release, so that the addition wraps around.\<close>

definition rust_plus_2_callable :: "int \<Rightarrow> int" where
  "rust_plus_2_callable x = sint (of_int (x + 2) :: u32)"

text \<open>\<^verbatim>\<open>panic\<close> prints the message and never returns.\<close>

definition panic :: "'a terminal_state_scheme \<Rightarrow> string \<Rightarrow> 'b outcome" where
  "panic s msg = bind_r (print s (c_string msg)) (\<lambda>_. Inl (Panic msg))"

text \<open>\<^verbatim>\<open>kernel_main\<close> from \<^verbatim>\<open>idt_init\<close> to \<^verbatim>\<open>keyboard_init\<close>.\<close>

definition setup_devices :: "boot_params \<Rightarrow> 'a main_state_scheme \<Rightarrow> 'a main_state_scheme outcome" where
  "setup_devices b s =
     bind_r (idt_init s (interrupt_pointer_table b) (idt_addr b) (idt_zero_addr b) (isr80h_wrapper_addr b)) (\<lambda>s.
      let s = s\<lparr>kernel_tss := zero_tss\<lparr>tss_esp0 := KERNEL_STACK_ADDR, tss_ss0 := KERNEL_DATA_SELECTOR\<rparr>, task_register := TSS_GDT_INDEX * 8\<rparr> in
      bind_r (init_page_tables s 7) (\<lambda>(pages, s).
      bind_r (paging_switch (s\<lparr>kernel_pages := pages\<rparr>) pages) (\<lambda>s.
      bind_r (isr80h_register_commands (s\<lparr>paging_enabled := True\<rparr>)) (\<lambda>s.
      keyboard_init s))))"

text \<open>\<^verbatim>\<open>kernel_main\<close> up to and including \<^verbatim>\<open>keyboard_init\<close>.\<close>

definition kernel_setup :: "device \<Rightarrow> boot_params \<Rightarrow> 'a main_state_scheme \<Rightarrow> 'a main_state_scheme outcome" where
  "kernel_setup dev b s =
     (let s = terminal_initialize s in
      bind_r (segment_descriptor_to_raw (replicate 6 (replicate 8 0)) (gdt (tss_addr b)) TOTAL_GDT_SEGMENTS) (\<lambda>raw.
      let s = s\<lparr>gdt_raw := raw, gdtr := (gdt_raw_addr b, 8 * TOTAL_GDT_SEGMENTS)\<rparr> in
      bind_r (kernel_heap_init (heap_table_mem b) s) (\<lambda>(_, s).
      bind_r (fs_init s) (\<lambda>s.
      bind_r (disk_search_and_init dev s) (\<lambda>s.
      setup_devices b s)))))"

text \<open>Entering the first task does not return.\<close>

definition kernel_main :: "device \<Rightarrow> boot_params \<Rightarrow> 'a main_state_scheme \<Rightarrow> 'a main_state_scheme outcome" where
  "kernel_main dev b s =
     bind_r (kernel_setup dev b s) (\<lambda>s.
     bind_r (process_load dev s (c_string ''0:/shell.elf'')) (\<lambda>(rc, _, s).
       if rc < 0 then panic s (''Failed to load 0:/shell.elf'' @ [CHR 0x0A])
       else
         bind_r (print s (message (if rust_plus_2_callable 2 = 4 then ''Rust integration test passed'' else ''Rust integration test failed''))) (\<lambda>s.
           task_exec s (get_task_list_head s))))"

section \<open>The effect of each stage\<close>

lemma init_col_loop_mem: "\<exists>m. init_col_loop s row col = s\<lparr>kmem := m\<rparr>"
proof (induction s row col rule: init_col_loop.induct)
  case (1 s row col)
  show ?case
  proof (cases "col < 80")
    case True
    then show ?thesis using 1 [OF True] by (subst init_col_loop.simps) (auto simp: terminal_put_char_def)
  next
    case False
    then show ?thesis by (subst init_col_loop.simps) (auto intro: exI [of _ "kmem s"])
  qed
qed

lemma terminal_initialize_mem: "\<exists>m. terminal_initialize s = s\<lparr>kmem := m\<rparr>"
proof -
  have "\<exists>m. init_row_loop s row = s\<lparr>kmem := m\<rparr>" for row
  proof (induction s row rule: init_row_loop.induct)
    case (1 s row)
    obtain m where "init_col_loop s row 0 = s\<lparr>kmem := m\<rparr>" using init_col_loop_mem by blast
    then show ?case using 1 by (cases "row < 20"; subst init_row_loop.simps) (auto intro: exI [of _ "kmem s"])
  qed
  then show ?thesis by (simp add: terminal_initialize_def)
qed

lemma kernel_heap_init_eq:
  assumes "length table_mem = 25600"
  shows "\<exists>h. kernel_heap_init table_mem s = Inr (0, s\<lparr>kernel_heap := h\<rparr>) \<and> heap_ok h \<and> free_blocks h = 25600"
proof -
  obtain s' where s': "kernel_heap_init table_mem s = Inr (0, s')" "heap_ok (kernel_heap s')" "free_blocks (kernel_heap s') = 25600"
    using kernel_heap_init_result [OF assms] by blast
  then have "s' = s\<lparr>kernel_heap := kernel_heap s'\<rparr>"
    by (auto simp: kernel_heap_init_def bind_r_eq_Inr_iff Let_def)
  then show ?thesis using s' by metis
qed

text \<open>The page tables are built in the heap; nothing else of the state changes.\<close>

abbreviation (input) heap_only :: "'a kstate_scheme \<Rightarrow> 'a kstate_scheme \<Rightarrow> bool" where
  "heap_only s s' \<equiv> s' = s\<lparr>kernel_heap := kernel_heap s', kmem := kmem s'\<rparr>"

lemma kzalloc_heap_only: "kzalloc s sz = Inr (p, s') \<Longrightarrow> heap_only s s'"
  by (auto simp: kzalloc_eq)

lemma init_pgd_loop_heap_only: "init_pgd_loop s pgd fl i off = Inr s' \<Longrightarrow> heap_only s s'"
proof (induction s pgd fl i off rule: init_pgd_loop.induct)
  case (1 s pgd fl i off)
  show ?case
  proof (cases "i < 1024")
    case True
    then obtain pte s1 m1 m2 where a: "kzalloc s 4096 = Inr (pte, s1)" "init_pte_loop (kmem s1) pte off fl 0 = Inr m1"
      "idx_store m1 pgd (of_nat i) (pte OR ucast fl OR 2) = Inr m2"
      and r: "init_pgd_loop (s1\<lparr>kmem := m2\<rparr>) pgd fl (Suc i) (off + 4194304) = Inr s'"
      using 1(2) by (subst (asm) init_pgd_loop.simps) (auto simp: bind_r_eq_Inr_iff)
    have "heap_only (s1\<lparr>kmem := m2\<rparr>) s'"
      by (rule 1(1) [OF True, of "(pte, s1)" pte s1 m1 m2]) (use a r in simp_all)
    moreover have "heap_only s s1" using a(1) by (rule kzalloc_heap_only)
    ultimately show ?thesis by (cases s; cases s1; cases s') simp
  next
    case False
    then show ?thesis using 1(2) by (subst (asm) init_pgd_loop.simps) simp
  qed
qed

lemma init_page_tables_heap_only:
  assumes "init_page_tables s fl = Inr (d, s')"
  shows "heap_only s s'" "d \<noteq> 0"
proof -
  obtain pgd s1 s2 s3 m where a: "kzalloc s 4096 = Inr (pgd, s1)" "init_pgd_loop s1 pgd fl 0 0 = Inr s2"
    "kzalloc s2 4 = Inr (d, s3)" "s' = s3\<lparr>kmem := m\<rparr>" and d: "d \<noteq> 0"
    using assms by (auto simp: init_page_tables_def bind_r_eq_Inr_iff idx_store_def split: if_splits)
  have "heap_only s s1" "heap_only s1 s2" "heap_only s2 s3"
    using a(1-3) by (auto dest: kzalloc_heap_only init_pgd_loop_heap_only)
  then show "heap_only s s'" using a(4) by (cases s; cases s1; cases s2; cases s3) simp
  show "d \<noteq> 0" by (rule d)
qed

lemma gdt_reads:
  "\<exists>raw. segment_descriptor_to_raw (replicate 6 (replicate 8 0)) (gdt a) 6 = Inr raw \<and> list_all2 reads_as raw (gdt a)"
  using to_raw_loop_reads [of "replicate 6 (replicate 8 0)" 6 "gdt a" 0]
  by (auto simp: segment_descriptor_to_raw_def gdt_def encodable_def areFirst12BitsOne_def)

lemma keyboard_init_eq:
  assumes "length (interrupt_handlers s) = 512" "keyboard_list_last s = NoKeyboard"
  shows "keyboard_init s = Inr (s\<lparr>keyboard_list_head := Ps2Keyboard, keyboard_list_last := Ps2Keyboard,
    interrupt_handlers := (interrupt_handlers s)[0x21 := Some ps2_keyboard_handle_interrupt_routine], io_trace := outb (io_trace s) 0x64 0xAE\<rparr>)"
  using assms
  by (simp add: keyboard_init_def keyboard_insert_def get_ps2_keyboard_driver_def ps2_keyboard_init_def enable_ps2_first_port_def
    idt_register_interrupt_handler_def)

lemma fs_only_kept:
  fixes s :: "'a main_state_scheme"
  assumes "fs_only s s'"
  shows "interrupt_handlers s' = interrupt_handlers s" "isr80h_commands s' = isr80h_commands s"
    "keyboard_list_last s' = keyboard_list_last s" "gdt_raw s' = gdt_raw s" "gdtr s' = gdtr s"
    "file_descriptors s' = file_descriptors s"
  using arg_cong [OF assms [unfolded fs_only_def], of interrupt_handlers] arg_cong [OF assms [unfolded fs_only_def], of isr80h_commands]
    arg_cong [OF assms [unfolded fs_only_def], of keyboard_list_last] arg_cong [OF assms [unfolded fs_only_def], of gdt_raw]
    arg_cong [OF assms [unfolded fs_only_def], of gdtr] arg_cong [OF assms [unfolded fs_only_def], of file_descriptors]
  by simp_all

text \<open>The first half: memory, descriptor table, heap and file system.\<close>

lemma setup_storage:
  fixes s :: "'a main_state_scheme"
  assumes "ata_ok dev img k" "fat16_image img n" "n < 2 ^ 26" "length (heap_table_mem b) = 25600"
  shows "\<exists>s1 priv. kernel_setup dev b s = setup_devices b s1 \<and> list_all2 reads_as (gdt_raw s1) (gdt (tss_addr b)) \<and>
    gdtr s1 = (gdt_raw_addr b, 48) \<and> file_descriptors s1 = replicate 512 0 \<and>
    interrupt_handlers s1 = interrupt_handlers s \<and> isr80h_commands s1 = isr80h_commands s \<and> keyboard_list_last s1 = keyboard_list_last s \<and>
    mounted s1 priv \<and> header priv = boot_header img \<and>
    dir_sector (root_directory priv) = root_sector (boot_header img) \<and> filesystem (disk_dev s1) = Fat16Filesystem \<and>
    heap_ok (kernel_heap s1) \<and> 25595 \<le> free_blocks (kernel_heap s1)"
proof -
  obtain m where m: "terminal_initialize s = s\<lparr>kmem := m\<rparr>" using terminal_initialize_mem by blast
  obtain raw where raw: "segment_descriptor_to_raw (replicate 6 (replicate 8 0)) (gdt (tss_addr b)) 6 = Inr raw"
    "list_all2 reads_as raw (gdt (tss_addr b))" using gdt_reads by blast
  let ?s0 = "s\<lparr>kmem := m, gdt_raw := raw, gdtr := (gdt_raw_addr b, 48)\<rparr>"
  obtain h where h: "kernel_heap_init (heap_table_mem b) ?s0 = Inr (0, ?s0\<lparr>kernel_heap := h\<rparr>)" "heap_ok h" "free_blocks h = 25600"
    using kernel_heap_init_eq [OF assms(4)] by blast
  let ?s' = "?s0\<lparr>kernel_heap := h, file_descriptors := replicate 512 0, filesystems := Fat16Filesystem # replicate 11 NoFilesystem\<rparr>"
  obtain s1 priv where r: "disk_search_and_init dev ?s' = Inr s1" "fs_only ?s' s1" "mounted s1 priv" "header priv = boot_header img"
    "dir_sector (root_directory priv) = root_sector (boot_header img)" "filesystem (disk_dev s1) = Fat16Filesystem"
    "heap_ok (kernel_heap s1)" "25595 \<le> free_blocks (kernel_heap s1)"
    using disk_search_mounts [OF assms(1-3), of ?s'] h(2,3) by auto
  have "kernel_setup dev b s = setup_devices b s1"
    using m raw(1) h(1) r(1) fs_init_eq [of "?s0\<lparr>kernel_heap := h\<rparr>"] by (simp add: kernel_setup_def)
  then show ?thesis using raw(2) r fs_only_kept [OF r(2)] by (intro exI [of _ s1] exI [of _ priv]) simp
qed

text \<open>The second half: interrupts, task state segment, paging, system calls and keyboard.\<close>

definition setup_done :: "boot_params \<Rightarrow> 'a main_state_scheme \<Rightarrow> 'a main_state_scheme \<Rightarrow> bool" where
  "setup_done b s s' \<longleftrightarrow> gdt_raw s' = gdt_raw s \<and> gdtr s' = gdtr s \<and> file_descriptors s' = file_descriptors s \<and>
    idtr s' = \<lparr>idtr_limit = 4095, idtr_base = idt_addr b\<rparr> \<and>
    (\<forall>i < 512. kernel_gate (idt s' ! i) (if i = 0 then idt_zero_addr b else if i = 0x80 then isr80h_wrapper_addr b else interrupt_pointer_table b (int i))) \<and>
    (\<forall>i < 512. interrupt_handlers s' ! i = (if i < 32 then Some idt_handle_user_process_exception
      else if i = 0x21 then Some ps2_keyboard_handle_interrupt_routine else interrupt_handlers s ! i)) \<and>
    kernel_tss s' = zero_tss\<lparr>tss_esp0 := 0x600000, tss_ss0 := 0x10\<rparr> \<and> task_register s' = 40 \<and>
    paging_enabled s' \<and> (\<forall>va. mmu_translate (kmem s') (cr3 s') va = Some va) \<and>
    isr80h_commands s' = system_call_table \<and> heap_ok (kernel_heap s') \<and> 24569 \<le> free_blocks (kernel_heap s')"

lemma setup_devices_result:
  fixes s :: "'a main_state_scheme"
  assumes "heap_ok (kernel_heap s)" "25595 \<le> free_blocks (kernel_heap s)" "length (interrupt_handlers s) = 512"
    "isr80h_commands s = replicate 1024 None" "keyboard_list_last s = NoKeyboard"
  shows "\<exists>s'. setup_devices b s = Inr s' \<and> disk_dev s' = disk_dev s \<and> fat_privates s' = fat_privates s \<and> streams s' = streams s \<and>
    setup_done b s s'"
proof -
  obtain t hs where i: "idt_init s (interrupt_pointer_table b) (idt_addr b) (idt_zero_addr b) (isr80h_wrapper_addr b) =
      Inr (s\<lparr>idt := t, idtr := \<lparr>idtr_limit = 4095, idtr_base = idt_addr b\<rparr>, interrupt_handlers := hs\<rparr>)" "length hs = 512"
    and gates: "\<forall>i < 512. kernel_gate (t ! i) (if i = 0 then idt_zero_addr b else if i = 0x80 then isr80h_wrapper_addr b else interrupt_pointer_table b (int i))"
    and hs: "\<forall>i < 512. hs ! i = (if i < 32 then Some idt_handle_user_process_exception else interrupt_handlers s ! i)"
    using idt_init_result [OF assms(3)] by blast
  let ?s1 = "s\<lparr>idt := t, idtr := \<lparr>idtr_limit = 4095, idtr_base = idt_addr b\<rparr>, interrupt_handlers := hs,
    kernel_tss := zero_tss\<lparr>tss_esp0 := 0x600000, tss_ss0 := 0x10\<rparr>, task_register := 40\<rparr>"
  have "1026 \<le> free_blocks (kernel_heap s)" using assms(2) by linarith
  then obtain d s2 where p: "init_page_tables ?s1 7 = Inr (d, s2)" "ident_upto (kmem s2) (load32 (kmem s2) d) 7 1024"
    "heap_ok (kernel_heap s2)" "free_blocks (kernel_heap s2) = free_blocks (kernel_heap s) - 1026"
    using init_page_tables_result [of ?s1 7] assms(1) by auto
  obtain h2 m2 where s2: "s2 = ?s1\<lparr>kernel_heap := h2, kmem := m2\<rparr>" and d: "d \<noteq> 0"
    using init_page_tables_heap_only [OF p(1)] by blast
  have walk: "mmu_translate m2 (load32 m2 d) va = Some va" for va
    using ident_upto_translate [OF p(2), of va] s2 by simp
  have fb: "heap_ok h2" "24569 \<le> free_blocks h2" using p(3,4) s2 assms(2) by simp_all
  let ?s3 = "s2\<lparr>kernel_pages := d, cr3 := load32 m2 d, current_pgd := load32 m2 d, paging_enabled := True, isr80h_commands := system_call_table\<rparr>"
  have "setup_devices b s = keyboard_init ?s3"
    using i(1) p(1) d assms(4) unfolding s2
    by (simp add: setup_devices_def paging_switch_eq register_commands_table)
  also have "\<dots> = Inr (?s3\<lparr>keyboard_list_head := Ps2Keyboard, keyboard_list_last := Ps2Keyboard,
    interrupt_handlers := hs[0x21 := Some ps2_keyboard_handle_interrupt_routine], io_trace := outb (io_trace s) 0x64 0xAE\<rparr>)"
    using i(2) assms(5) by (simp add: keyboard_init_eq s2)
  finally show ?thesis using gates hs i(2) d walk fb unfolding s2 by (simp add: setup_done_def nth_list_update)
qed

section \<open>Properties\<close>


text \<open>The header of the disk image as the boot sector has it, before an empty root directory.\<close>

definition boot_image :: "nat \<Rightarrow> u8" where
  "boot_image i = (if i = 12 then 0x02 else if i = 13 then 0x80 else if i = 14 then 0xA1 else if i = 15 then 0x0F else if i = 16 then 0x02
    else if i = 17 then 0x40 else if i = 23 then 0x01 else if i = 38 then 0x29 else 0)"

lemma boot_image_header:
  "root_sector (boot_header boot_image) = 4513" "fat16_image boot_image 0"
proof -
  have b: "img_bytes boot_image 0 62 ! i = boot_image i" if "i < 62" for i using that by (simp add: img_bytes_def)
  have h: "extended_boot_signature (header_extended (boot_header boot_image)) = 0x29"
    "sectors_per_cluster (header_primary (boot_header boot_image)) = 0x80"
    "root_dir_entries (header_primary (boot_header boot_image)) = 64" "fat_copies (header_primary (boot_header boot_image)) = 2"
    "sectors_per_fat (header_primary (boot_header boot_image)) = 256" "reserved_sectors (header_primary (boot_header boot_image)) = 4001"
    by (simp_all add: boot_header_def decode_header_def decode_header_primary_def decode_header_extended_def le16_def b boot_image_def)
  show r: "root_sector (boot_header boot_image) = 4513" by (simp add: root_sector_def h)
  show "fat16_image boot_image 0" by (simp add: fat16_image_def h r boot_image_def)
qed

definition demo_main_state :: main_state where
  "demo_main_state = idt_state.extend demo_idt_state (main_state.fields [] (0, 0) zero_tss 0 False)"

definition demo_params :: boot_params where
  "demo_params = \<lparr>heap_table_mem = replicate 25600 0xFF, gdt_raw_addr = 0x110000, tss_addr = 0x111000,
     interrupt_pointer_table = (\<lambda>i. 0x100000 + 16 * of_int i), idt_addr = 0x112000, idt_zero_addr = 0x113000, isr80h_wrapper_addr = 0x114000\<rparr>"


end
