(* ===== verification/User_Lib.thy ===== *)
theory User_Lib
  imports C_Strings
begin

text \<open>
  The library of the user programs, \<^verbatim>\<open>src/user_programs/stdlib/src\<close>: \<^verbatim>\<open>strtok\<close> of string.c, stdlib.c, stdio.c,
  coniferos.c and the system call stubs of coniferos.asm (the other functions of string.c and
  memory.c repeat the kernel's and are those of \<^verbatim>\<open>C_Strings\<close>). A stub enters the kernel through
  interrupt 0x80 with the number of the call in \<^verbatim>\<open>eax\<close> and the arguments on the stack; it is an
  event in the trace of the program. The kernel is a parameter: it maps the trace, up to and
  including the call, to the value returned in \<^verbatim>\<open>eax\<close>.
\<close>

section \<open>System calls\<close>

datatype sys_event =
    SysPrint "u8 list"                      \<comment> \<open>the memory that the argument points to\<close>
  | SysGetKey
  | SysPutChar u8
  | SysMalloc u32
  | SysFree u32
  | SysExecve "u8 list" "u8 list list" int  \<comment> \<open>file name, strings that \<^verbatim>\<open>argv\<close> points to, \<^verbatim>\<open>argc\<close>\<close>
  | SysExit

type_synonym kernel_answers = "sys_event list \<Rightarrow> u32"

text \<open>\<open>strtok_rest\<close> is the static variable \<^verbatim>\<open>remainder\<close> of \<^verbatim>\<open>strtok\<close>.\<close>

record user_state =
  sys_trace :: "sys_event list"
  strtok_rest :: "u8 list option"

definition int80 :: "kernel_answers \<Rightarrow> 'a user_state_scheme \<Rightarrow> sys_event \<Rightarrow> u32 \<times> 'a user_state_scheme" where
  "int80 k s e = (k (sys_trace s @ [e]), s\<lparr>sys_trace := sys_trace s @ [e]\<rparr>)"

definition user_print :: "kernel_answers \<Rightarrow> 'a user_state_scheme \<Rightarrow> u8 list \<Rightarrow> 'a user_state_scheme" where
  "user_print k s str = snd (int80 k s (SysPrint str))"

definition coniferos_get_key :: "kernel_answers \<Rightarrow> 'a user_state_scheme \<Rightarrow> u32 \<times> 'a user_state_scheme" where
  "coniferos_get_key k s = int80 k s SysGetKey"

definition coniferos_malloc :: "kernel_answers \<Rightarrow> 'a user_state_scheme \<Rightarrow> u32 \<Rightarrow> u32 \<times> 'a user_state_scheme" where
  "coniferos_malloc k s sz = int80 k s (SysMalloc sz)"

definition coniferos_free :: "kernel_answers \<Rightarrow> 'a user_state_scheme \<Rightarrow> u32 \<Rightarrow> 'a user_state_scheme" where
  "coniferos_free k s ptr = snd (int80 k s (SysFree ptr))"

definition coniferos_putchar :: "kernel_answers \<Rightarrow> 'a user_state_scheme \<Rightarrow> u8 \<Rightarrow> 'a user_state_scheme" where
  "coniferos_putchar k s c = snd (int80 k s (SysPutChar c))"

definition coniferos_execve :: "kernel_answers \<Rightarrow> 'a user_state_scheme \<Rightarrow> u8 list \<Rightarrow> u8 list list \<Rightarrow> int \<Rightarrow> 'a user_state_scheme" where
  "coniferos_execve k s fname args n = snd (int80 k s (SysExecve fname args n))"

definition coniferos_exit :: "kernel_answers \<Rightarrow> 'a user_state_scheme \<Rightarrow> 'a user_state_scheme" where
  "coniferos_exit k s = snd (int80 k s SysExit)"

definition malloc :: "kernel_answers \<Rightarrow> 'a user_state_scheme \<Rightarrow> u32 \<Rightarrow> u32 \<times> 'a user_state_scheme" where
  "malloc k s sz = coniferos_malloc k s sz"

definition free :: "kernel_answers \<Rightarrow> 'a user_state_scheme \<Rightarrow> u32 \<Rightarrow> 'a user_state_scheme" where
  "free k s ptr = coniferos_free k s ptr"

section \<open>Keyboard input\<close>

text \<open>\<open>None\<close>: no key ever arrives.\<close>

partial_function (option) coniferos_get_key_blocking :: "kernel_answers \<Rightarrow> 'a user_state_scheme \<Rightarrow> (u32 \<times> 'a user_state_scheme) option" where
  "coniferos_get_key_blocking k s =
     (let r = coniferos_get_key k s in
      if fst r = 0 then coniferos_get_key_blocking k (snd r) else Some r)"

text \<open>After a backspace the index drops by two and the increment of the loop follows.\<close>

partial_function (option) readline_loop :: "kernel_answers \<Rightarrow> 'a user_state_scheme \<Rightarrow> u8 list \<Rightarrow> int \<Rightarrow> int \<Rightarrow>
    (u8 list \<times> int \<times> 'a user_state_scheme) outcome option" where
  "readline_loop k s out mx i =
     (if i < mx
      then case coniferos_get_key_blocking k s of
          None \<Rightarrow> None
        | Some (r, s) \<Rightarrow>
            let key = ucast r; s' = coniferos_putchar k s key in
            if key = 13 then Some (Inr (out, i, s))
            else if key = 8 \<and> i \<ge> 1
            then (case upd_r out (i - 1) 0 of Inl e \<Rightarrow> Some (Inl e) | Inr out \<Rightarrow> readline_loop k s' out mx (i - 2 + 1))
            else (case upd_r out i key of Inl e \<Rightarrow> Some (Inl e) | Inr out \<Rightarrow> readline_loop k s' out mx (i + 1))
      else Some (Inr (out, i, s)))"

definition coniferos_terminal_readline :: "kernel_answers \<Rightarrow> 'a user_state_scheme \<Rightarrow> u8 list \<Rightarrow> int \<Rightarrow>
    (u8 list \<times> 'a user_state_scheme) outcome" where
  "coniferos_terminal_readline k s out mx =
     (case readline_loop k s out mx 0 of
        None \<Rightarrow> Inl Diverge
      | Some r \<Rightarrow> bind_r r (\<lambda>(out, i, s). bind_r (upd_r out i 0) (\<lambda>out. Inr (out, s))))"

section \<open>Tokens\<close>

fun strtok_loop :: "u8 list \<Rightarrow> u8 \<Rightarrow> u8 list \<Rightarrow> nat \<Rightarrow> (u8 list \<times> u8 list option) outcome" where
  "strtok_loop [] delim out_tok i = Inl OutOfBounds"
| "strtok_loop (c # cs) delim out_tok i =
     (if c = 0 then bind_r (upd_r out_tok (int i) 0) (\<lambda>out_tok. Inr (out_tok, None))
      else if c = delim then bind_r (upd_r out_tok (int i) 0) (\<lambda>out_tok. Inr (out_tok, Some cs))
      else bind_r (upd_r out_tok (int i) c) (\<lambda>out_tok. strtok_loop cs delim out_tok (Suc i)))"

text \<open>
  The size of the unused array \<^verbatim>\<open>next_token\<close> is \<^verbatim>\<open>strlen(str)\<close>, also when \<^verbatim>\<open>str\<close> is null. The page tables
  of a task map address 0; \<open>low\<close> are the bytes there. The result says whether a token was found.
\<close>

definition strtok :: "u8 list \<Rightarrow> 'a user_state_scheme \<Rightarrow> u8 list option \<Rightarrow> u8 \<Rightarrow> u8 list \<Rightarrow>
    (bool \<times> u8 list \<times> 'a user_state_scheme) outcome" where
  "strtok low s str delim out_tok =
     (case (case str of None \<Rightarrow> strtok_rest s | Some p \<Rightarrow> Some p) of
        None \<Rightarrow> Inr (False, out_tok, s)
      | Some rest \<Rightarrow>
          bind_r (strlen (case str of None \<Rightarrow> low | Some p \<Rightarrow> p)) (\<lambda>_.
            bind_r (strtok_loop rest delim out_tok 0) (\<lambda>(out_tok, rest).
              Inr (True, out_tok, s\<lparr>strtok_rest := rest\<rparr>))))"

section \<open>Numbers\<close>

function reverse_loop :: "u8 list \<Rightarrow> int \<Rightarrow> int \<Rightarrow> u8 list outcome" where
  "reverse_loop str l r =
     (if l < r
      then bind_r (nth_r str l) (\<lambda>tmp. bind_r (nth_r str r) (\<lambda>c.
        bind_r (upd_r str l c) (\<lambda>str. bind_r (upd_r str r tmp) (\<lambda>str. reverse_loop str (l + 1) (r - 1)))))
      else Inr str)"
  by pat_completeness auto
termination
  by (relation "measure (\<lambda>(str, l, r). nat (r - l))") auto

definition reverse_str :: "u8 list \<Rightarrow> int \<Rightarrow> u8 list outcome" where
  "reverse_str str len = reverse_loop str 0 (len - 1)"

lemma sdiv_10_less: "num \<noteq> 0 \<Longrightarrow> \<bar>num sdiv 10\<bar> < \<bar>num :: int\<bar>"
  by (auto simp: signed_divide_int_def sgn_if abs_if)

function itoa_loop :: "u8 list \<Rightarrow> int \<Rightarrow> int \<Rightarrow> (u8 list \<times> int) outcome" where
  "itoa_loop buffer num i =
     (if num \<noteq> 0
      then bind_r (upd_r buffer i (of_int (48 + num smod 10))) (\<lambda>buffer. itoa_loop buffer (num sdiv 10) (i + 1))
      else Inr (buffer, i))"
  by pat_completeness auto
termination
  by (relation "measure (\<lambda>(b, num, i). nat \<bar>num\<bar>)") (auto intro: sdiv_10_less)

text \<open>The negation of the least \<^verbatim>\<open>int\<close> wraps around.\<close>

definition itoa :: "int \<Rightarrow> u8 list \<Rightarrow> u8 list outcome" where
  "itoa num buffer =
     (if num = 0 then bind_r (upd_r buffer 0 48) (\<lambda>buffer. upd_r buffer 1 10)
      else
        let negative = num < 0;
            num = (if negative then sint (of_int (- num) :: u32) else num) in
        bind_r (itoa_loop buffer num 0) (\<lambda>(buffer, i).
          bind_r (if negative then bind_r (upd_r buffer i 45) (\<lambda>buffer. Inr (buffer, i + 1)) else Inr (buffer, i)) (\<lambda>(buffer, i).
            bind_r (upd_r buffer i 0) (\<lambda>buffer. reverse_str buffer i))))"

declare reverse_loop.simps [simp del] itoa_loop.simps [simp del]

section \<open>Formatted output\<close>

definition putchar :: "kernel_answers \<Rightarrow> 'a user_state_scheme \<Rightarrow> u8 \<Rightarrow> 'a user_state_scheme" where
  "putchar k s c = coniferos_putchar k s c"

datatype va_arg = VaInt int | VaString "u8 list"

text \<open>A missing argument, or one of another type, is read outside the argument list.\<close>

fun printf_loop :: "kernel_answers \<Rightarrow> 'a user_state_scheme \<Rightarrow> u8 list \<Rightarrow> va_arg list \<Rightarrow> 'a user_state_scheme outcome" where
  "printf_loop k s [] args = Inl OutOfBounds"
| "printf_loop k s (c # p) args =
     (if c = 0 then Inr s
      else if c \<noteq> 37 then printf_loop k (putchar k s c) p args
      else case p of
          [] \<Rightarrow> Inl OutOfBounds
        | d # p \<Rightarrow>
            if d = 105
            then (case args of
                VaInt ival # args \<Rightarrow> bind_r (itoa ival (replicate 12 0)) (\<lambda>str. printf_loop k (user_print k s str) p args)
              | _ \<Rightarrow> Inl OutOfBounds)
            else if d = 115
            then (case args of
                VaString sval # args \<Rightarrow> printf_loop k (user_print k s sval) p args
              | _ \<Rightarrow> Inl OutOfBounds)
            else printf_loop k (putchar k s d) p args)"

definition printf :: "kernel_answers \<Rightarrow> 'a user_state_scheme \<Rightarrow> u8 list \<Rightarrow> va_arg list \<Rightarrow> 'a user_state_scheme outcome" where
  "printf k s fmt args = printf_loop k s fmt args"

section \<open>Decimal numbers\<close>

lemma reverse_loop_eq:
  "0 \<le> l \<Longrightarrow> l \<le> r + 1 \<Longrightarrow> r < int (length str) \<Longrightarrow>
    \<exists>ys. reverse_loop str l r = Inr ys \<and> length ys = length str \<and>
      (\<forall>j < length str. ys ! j = (if l \<le> int j \<and> int j \<le> r then str ! nat (l + r - int j) else str ! j))"
proof (induction str l r rule: reverse_loop.induct)
  case (1 str l r)
  show ?case
  proof (cases "l < r")
    case True
    let ?str = "str[nat l := str ! nat r, nat r := str ! nat l]"
    have idx: "nat l < length str" "nat r < length str" "0 \<le> r" using 1 True by auto
    have e: "reverse_loop str l r = reverse_loop ?str (l + 1) (r - 1)"
      using idx 1(2) True by (subst reverse_loop.simps) simp
    obtain ys where ys: "reverse_loop ?str (l + 1) (r - 1) = Inr ys" "length ys = length str"
      "\<And>j. j < length str \<Longrightarrow> ys ! j = (if l + 1 \<le> int j \<and> int j \<le> r - 1 then ?str ! nat (l + 1 + (r - 1) - int j) else ?str ! j)"
      using 1(1)[OF True, of "str ! nat l" "str ! nat r" "str[nat l := str ! nat r]" ?str] 1(2-4) True idx by auto
    have "ys ! j = (if l \<le> int j \<and> int j \<le> r then str ! nat (l + r - int j) else str ! j)" if "j < length str" for j
    proof -
      consider "int j = l" | "int j = r" | "l < int j \<and> int j < r" | "int j < l \<or> r < int j" by linarith
      then show ?thesis
      proof cases
        case 1
        then have "j = nat l" "nat l \<noteq> nat r" using True by linarith+
        with 1 show ?thesis using ys(3)[OF that] True idx by simp
      next
        case 2
        then have "j = nat r" by simp
        with 2 show ?thesis using ys(3)[OF that] True idx by simp
      next
        case 4
        then have "j \<noteq> nat l" "j \<noteq> nat r" using 1(2) True by linarith+
        moreover from 4 have "(l \<le> int j \<and> int j \<le> r) = False"
          "(l + 1 \<le> int j \<and> int j \<le> r - 1) = False" by auto
        ultimately show ?thesis using ys(3)[OF that] by (simp only: if_False nth_list_update_neq not_sym)
      next
        case 3
        then have "nat (l + r - int j) \<noteq> nat l" "nat (l + r - int j) \<noteq> nat r" using 1(2) by linarith+
        with 3 show ?thesis using ys(3)[OF that] by simp
      qed
    qed
    then show ?thesis using e ys by simp
  next
    case False
    then have "reverse_loop str l r = Inr str" by (subst reverse_loop.simps) simp
    moreover have "nat (l + r - int j) = j" if "l \<le> int j" "int j \<le> r" for j using that False by linarith
    then have "str ! j = (if l \<le> int j \<and> int j \<le> r then str ! nat (l + r - int j) else str ! j)" for j
      by simp
    ultimately show ?thesis by blast
  qed
qed

lemma reverse_str_eq: "n \<le> length str \<Longrightarrow> reverse_str str (int n) = Inr (rev (take n str) @ drop n str)"
proof -
  assume n: "n \<le> length str"
  obtain ys where ys: "reverse_loop str 0 (int n - 1) = Inr ys" "length ys = length str"
    "\<And>j. j < length str \<Longrightarrow> ys ! j = (if 0 \<le> int j \<and> int j \<le> int n - 1 then str ! nat (0 + (int n - 1) - int j) else str ! j)"
    using reverse_loop_eq [of 0 "int n - 1" str] n by auto
  have "ys = rev (take n str) @ drop n str"
  proof (rule nth_equalityI)
    fix j assume "j < length ys"
    then have j: "j < length str" using ys(2) by simp
    have "nat (int n - 1 - int j) = n - Suc j" by simp
    then show "ys ! j = (rev (take n str) @ drop n str) ! j"
      using ys(3)[OF j] n j by (auto simp: nth_append rev_nth min_def)
  qed (use n ys(2) in simp)
  then show ?thesis using ys(1) by (simp add: reverse_str_def)
qed

text \<open>The decimal digits, the last one first.\<close>

fun rev_digits :: "nat \<Rightarrow> nat list" where
  "rev_digits n = (if n = 0 then [] else n mod 10 # rev_digits (n div 10))"

declare rev_digits.simps [simp del]

definition digit_char :: "nat \<Rightarrow> u8" where
  "digit_char d = of_nat (48 + d)"

lemma rev_digits_0 [simp]: "rev_digits 0 = []"
  by (simp add: rev_digits.simps)

lemma rev_digits_pos: "0 < n \<Longrightarrow> rev_digits n = n mod 10 # rev_digits (n div 10)"
  by (subst rev_digits.simps) simp

lemma rev_digits_less: "d \<in> set (rev_digits n) \<Longrightarrow> d < 10"
  by (induction n rule: rev_digits.induct) (subst (asm) (2) rev_digits.simps, auto split: if_splits)

lemma rev_digits_last: "0 < n \<Longrightarrow> rev_digits n \<noteq> [] \<and> last (rev_digits n) \<noteq> 0"
proof (induction n rule: rev_digits.induct)
  case (1 n)
  then show ?case by (cases "n div 10 = 0") (auto simp: rev_digits_pos [of n])
qed

lemma length_rev_digits: "n < 10 ^ k \<Longrightarrow> length (rev_digits n) \<le> k"
proof (induction k arbitrary: n)
  case (Suc k)
  then show ?case by (cases "n = 0") (auto simp: rev_digits_pos [of n])
qed simp

lemma rev_digits_value: "foldr (\<lambda>d v. 10 * v + d) (rev_digits n) 0 = n"
proof (induction n rule: rev_digits.induct)
  case (1 n)
  then show ?case by (cases "n = 0") (auto simp: rev_digits_pos [of n])
qed

lemma upd_r_at: "length xs = i \<Longrightarrow> upd_r (xs @ y # ys) (int i) v = Inr (xs @ v # ys)"
  by (auto simp: upd_r_of_nat)

lemma itoa_loop_eq:
  "length (rev_digits n) \<le> length ys \<Longrightarrow> itoa_loop (xs @ ys) (int n) (int (length xs)) =
    Inr (xs @ map digit_char (rev_digits n) @ drop (length (rev_digits n)) ys, int (length xs + length (rev_digits n)))"
proof (induction n arbitrary: xs ys rule: rev_digits.induct)
  case (1 n)
  show ?case
  proof (cases "n = 0")
    case True
    then show ?thesis by (subst itoa_loop.simps) simp
  next
    case False
    then obtain y zs where ys: "ys = y # zs" using 1(2) by (cases ys) (auto simp: rev_digits_pos)
    have d: "int n sdiv 10 = int (n div 10)" "int n smod 10 = int (n mod 10)"
      by (auto simp: signed_divide_int_def signed_modulo_int_def sgn_if zdiv_int zmod_int)
    have "itoa_loop (xs @ ys) (int n) (int (length xs)) =
        itoa_loop ((xs @ [digit_char (n mod 10)]) @ zs) (int (n div 10)) (int (length (xs @ [digit_char (n mod 10)])))"
      using False by (subst itoa_loop.simps) (simp add: d ys upd_r_at digit_char_def add.commute)
    then show ?thesis
      using 1(1)[OF False, of zs "xs @ [digit_char (n mod 10)]"] 1(2) False by (simp add: rev_digits_pos ys)
  qed
qed

section \<open>Reading a number back\<close>

definition read_digits :: "u8 list \<Rightarrow> int" where
  "read_digits cs = foldl (\<lambda>v c. 10 * v + ctoi c) 0 cs"

text \<open>The number that a text denotes, and that it has at least one digit and no leading zero.\<close>

definition read_decimal :: "u8 list \<Rightarrow> int" where
  "read_decimal cs = (if cs \<noteq> [] \<and> hd cs = 45 then - read_digits (tl cs) else read_digits cs)"

definition is_decimal :: "u8 list \<Rightarrow> bool" where
  "is_decimal cs \<longleftrightarrow> (let ds = (if cs \<noteq> [] \<and> hd cs = 45 then tl cs else cs) in
     ds \<noteq> [] \<and> hd ds \<noteq> 48 \<and> list_all is_digit ds)"

lemma digit_char_cases: "d < 10 \<Longrightarrow> digit_char d \<noteq> 0 \<and> digit_char d \<noteq> 45 \<and> (digit_char d = 48 \<longleftrightarrow> d = 0) \<and>
    is_digit (digit_char d) \<and> ctoi (digit_char d) = int d"
proof -
  assume "d < 10"
  then have "d \<in> {0, 1, 2, 3, 4, 5, 6, 7, 8, 9}" by auto
  then show ?thesis by (auto simp: digit_char_def is_digit_def ctoi_def)
qed

lemma read_rev_digits: "read_digits (rev (map digit_char (rev_digits n))) = int n"
proof -
  have "foldr (\<lambda>c v. 10 * v + ctoi c) (map digit_char ds) 0 = int (foldr (\<lambda>d v. 10 * v + d) ds 0)"
    if "\<And>d. d \<in> set ds \<Longrightarrow> d < 10" for ds
    using that by (induction ds) (auto simp: digit_char_cases)
  from this [of "rev_digits n"] show ?thesis
    by (simp add: read_digits_def foldl_conv_foldr rev_digits_less rev_digits_value)
qed

text \<open>The text of a number.\<close>

definition decimal :: "int \<Rightarrow> u8 list" where
  "decimal num = (if num < 0 then [45] else []) @ rev (map digit_char (rev_digits (nat \<bar>num\<bar>)))"

lemma decimal_reads:
  assumes "num \<noteq> 0"
  shows "read_decimal (decimal num) = num" "is_decimal (decimal num)" "0 \<notin> set (decimal num)"
proof -
  let ?n = "nat \<bar>num\<bar>" and ?ds = "rev (map digit_char (rev_digits (nat \<bar>num\<bar>)))"
  have n: "0 < ?n" using assms by simp
  have ne: "?ds \<noteq> []" "hd ?ds = digit_char (last (rev_digits ?n))"
    using rev_digits_last [OF n] by (auto simp: hd_rev last_map)
  have "last (rev_digits ?n) < 10" "last (rev_digits ?n) \<noteq> 0"
    using rev_digits_last [OF n] rev_digits_less [OF last_in_set] by auto
  then have hd: "hd ?ds \<noteq> 45" "hd ?ds \<noteq> 48" using ne(2) digit_char_cases by auto
  have all: "list_all is_digit ?ds" "0 \<notin> set ?ds"
    by (auto simp: list_all_iff digit_char_cases dest!: rev_digits_less)
  show "read_decimal (decimal num) = num"
    using hd ne(1) read_rev_digits [of ?n] by (auto simp: read_decimal_def decimal_def)
  show "is_decimal (decimal num)"
    using hd ne(1) all(1) by (auto simp: is_decimal_def decimal_def Let_def)
  show "0 \<notin> set (decimal num)" using all(2) by (auto simp: decimal_def)
qed

lemma length_decimal:
  assumes "\<bar>num\<bar> < 2147483648"
  shows "length (decimal num) \<le> 11"
proof -
  have "length (rev_digits (nat \<bar>num\<bar>)) \<le> 10" using assms by (intro length_rev_digits) simp
  then show ?thesis unfolding decimal_def by (cases "num < 0") simp_all
qed

lemma itoa_tail:
  "bind_r (upd_r (ds @ y # zs) (int (length ds)) 0) (\<lambda>b. reverse_str b (int (length ds))) = Inr (rev ds @ 0 # zs)"
  using reverse_str_eq [of "length ds" "ds @ 0 # zs"] by (subst upd_r_at) simp_all

lemma itoa_eq:
  assumes "num \<noteq> 0" "\<bar>num\<bar> < 2147483648" "length (decimal num) < length buffer"
  shows "itoa num buffer = Inr (decimal num @ 0 # drop (Suc (length (decimal num))) buffer)"
proof -
  define ds where "ds = map digit_char (rev_digits (nat \<bar>num\<bar>))"
  have dec: "decimal num = (if num < 0 then [45] else []) @ rev ds" by (simp add: decimal_def ds_def)
  have abs: "(if num < 0 then sint (of_int (- num) :: u32) else num) = \<bar>num\<bar>"
    using assms(2) sint_of_int_small [of "- num"] by (simp del: of_int_minus)
  have len: "length ds < length buffer" using assms(3) by (simp add: dec split: if_splits)
  have "itoa_loop buffer \<bar>num\<bar> 0 = Inr (ds @ drop (length ds) buffer, int (length ds))"
    using itoa_loop_eq [of "nat \<bar>num\<bar>" buffer "[]"] len by (simp add: ds_def)
  then have loop: "itoa_loop buffer \<bar>num\<bar> 0 = Inr (ds @ buffer ! length ds # drop (Suc (length ds)) buffer, int (length ds))"
    using len by (simp add: Cons_nth_drop_Suc)
  show ?thesis
  proof (cases "num < 0")
    case False
    then show ?thesis
      using assms(1) loop abs itoa_tail [of ds] by (simp add: itoa_def Let_def dec del: upd_r_in)
  next
    case True
    then have "Suc (length ds) < length buffer" using assms(3) by (simp add: dec)
    then have d: "drop (Suc (length ds)) buffer = buffer ! Suc (length ds) # drop (Suc (Suc (length ds))) buffer"
      by (simp add: Cons_nth_drop_Suc)
    have "upd_r (ds @ y # zs) (int (length ds)) 45 = Inr ((ds @ [45]) @ zs)" for y zs by (simp add: upd_r_at)
    then have "itoa num buffer = bind_r (upd_r ((ds @ [45]) @ drop (Suc (length ds)) buffer) (int (length (ds @ [45]))) 0)
        (\<lambda>b. reverse_str b (int (length (ds @ [45]))))"
      unfolding itoa_def Let_def abs loop using assms(1) True loop by (simp add: add.commute del: upd_r_in)
    then show ?thesis using True itoa_tail [of "ds @ [45]"] unfolding d by (simp add: dec del: upd_r_in)
  qed
qed

section \<open>The answers of the kernel\<close>

text \<open>
  The next calls that satisfy \<open>P\<close> are answered with the given values, in this order and whatever
  other calls come between them.
\<close>

definition answers :: "(sys_event \<Rightarrow> bool) \<Rightarrow> kernel_answers \<Rightarrow> sys_event list \<Rightarrow> u32 list \<Rightarrow> bool" where
  "answers P k tr rs \<longleftrightarrow> (\<forall>i < length rs. \<forall>t e. P e \<and> length (filter P t) = length (filter P tr) + i \<longrightarrow> k (t @ [e]) = rs ! i)"

abbreviation is_get_key :: "sys_event \<Rightarrow> bool" where
  "is_get_key e \<equiv> e = SysGetKey"

fun is_malloc :: "sys_event \<Rightarrow> bool" where
  "is_malloc (SysMalloc sz) = True"
| "is_malloc _ = False"

text \<open>The text that the calls of a trace put on the screen.\<close>

fun shown_event :: "sys_event \<Rightarrow> u8 list" where
  "shown_event (SysPrint str) = cstr str"
| "shown_event (SysPutChar c) = [c]"
| "shown_event _ = []"

definition shown :: "sys_event list \<Rightarrow> u8 list" where
  "shown tr = concat (map shown_event tr)"

lemma shown_append [simp]: "shown (t @ u) = shown t @ shown u" "shown [] = []" "shown (e # u) = shown_event e @ shown u"
  by (simp_all add: shown_def)

lemma answers_first: "answers P k tr (r # rs) \<Longrightarrow> P e \<Longrightarrow> k (tr @ [e]) = r"
  by (fastforce simp: answers_def)

lemma answers_next: "answers P k tr (r # rs) \<Longrightarrow> P e \<Longrightarrow> answers P k (tr @ [e]) rs"
proof -
  assume a: "answers P k tr (r # rs)" and e: "P e"
  have "k (t @ [e']) = rs ! i" if "i < length rs" "P e'" "length (filter P t) = length (filter P tr) + 1 + i" for i t e'
  proof -
    have "Suc i < length (r # rs)" "length (filter P t) = length (filter P tr) + Suc i" using that by simp_all
    with a \<open>P e'\<close> have "k (t @ [e']) = (r # rs) ! Suc i" unfolding answers_def by blast
    then show ?thesis by simp
  qed
  with e show ?thesis by (simp add: answers_def)
qed

lemma answers_other [simp]: "\<not> P e \<Longrightarrow> answers P k (tr @ [e]) rs \<longleftrightarrow> answers P k tr rs"
  by (simp add: answers_def)

lemma answers_cong: "filter P tr = filter P tr' \<Longrightarrow> answers P k tr rs = answers P k tr' rs"
  by (simp add: answers_def)

lemmas stub_defs = int80_def user_print_def coniferos_get_key_def coniferos_malloc_def coniferos_free_def coniferos_putchar_def
  coniferos_execve_def coniferos_exit_def malloc_def free_def putchar_def

section \<open>Reading a line\<close>

abbreviation keys_polled :: "kernel_answers \<Rightarrow> sys_event list \<Rightarrow> u8 list \<Rightarrow> bool" where
  "keys_polled k tr polls \<equiv> answers is_get_key k tr (map scast polls)"

lemma ucast_scast [simp]: "(ucast (scast (c :: u8) :: u32) :: u8) = c"
  by (rule bit_word_eqI) (auto simp: bit_simps)

lemma scast_eq_0 [simp]: "(scast (c :: u8) :: u32) = 0 \<longleftrightarrow> c = 0"
proof
  assume "(scast c :: u32) = 0"
  then show "c = 0" using ucast_scast [of c] by simp
qed simp

lemma get_key_blocking_first:
  assumes "keys_polled k (sys_trace s) polls" "filter (\<lambda>c. c \<noteq> 0) polls = c # cs"
  shows "\<exists>n polls'. coniferos_get_key_blocking k s = Some (scast c, s\<lparr>sys_trace := sys_trace s @ replicate n SysGetKey\<rparr>) \<and>
    keys_polled k (sys_trace s @ replicate n SysGetKey) polls' \<and> filter (\<lambda>c. c \<noteq> 0) polls' = cs"
  using assms
proof (induction polls arbitrary: s)
  case (Cons p ps)
  let ?s = "s\<lparr>sys_trace := sys_trace s @ [SysGetKey]\<rparr>"
  have r: "coniferos_get_key k s = (scast p, ?s)" and ps: "keys_polled k (sys_trace ?s) ps"
    using answers_first [of is_get_key k "sys_trace s" "scast p" "map scast ps" SysGetKey]
      answers_next [of is_get_key k "sys_trace s" "scast p" "map scast ps" SysGetKey] Cons.prems(1)
    by (simp_all add: stub_defs)
  show ?case
  proof (cases "p = 0")
    case True
    obtain n polls' where n: "coniferos_get_key_blocking k ?s = Some (scast c, ?s\<lparr>sys_trace := sys_trace ?s @ replicate n SysGetKey\<rparr>)"
      "keys_polled k (sys_trace ?s @ replicate n SysGetKey) polls'" "filter (\<lambda>c. c \<noteq> 0) polls' = cs"
      using Cons.IH [OF ps] Cons.prems(2) True by auto
    have "coniferos_get_key_blocking k s = coniferos_get_key_blocking k ?s"
      using True by (subst coniferos_get_key_blocking.simps) (simp add: r)
    then show ?thesis using n by (intro exI [of _ "Suc n"] exI [of _ polls']) simp
  next
    case False
    then have "coniferos_get_key_blocking k s = Some (scast c, ?s)" "filter (\<lambda>c. c \<noteq> 0) ps = cs"
      using Cons.prems(2) by (auto simp: coniferos_get_key_blocking.simps [of k s] r)
    then show ?thesis using ps by (intro exI [of _ 1] exI [of _ ps]) simp
  qed
qed simp

text \<open>What a key does to the line: a backspace removes the last character if there is one.\<close>

definition line_edit :: "u8 list \<Rightarrow> u8 \<Rightarrow> u8 list" where
  "line_edit l c = (if c = 8 \<and> l \<noteq> [] then butlast l else l @ [c])"

text \<open>The line stays shorter than the bound while the keys are typed.\<close>

fun fits :: "int \<Rightarrow> u8 list \<Rightarrow> u8 list \<Rightarrow> bool" where
  "fits mx l [] \<longleftrightarrow> True"
| "fits mx l (c # cs) \<longleftrightarrow> int (length l) < mx \<and> fits mx (line_edit l c) cs"

text \<open>The two traces differ by polls of the keyboard only.\<close>

abbreviation visible :: "sys_event list \<Rightarrow> sys_event list" where
  "visible tr \<equiv> filter (\<lambda>e. e \<noteq> SysGetKey) tr"

lemma readline_step:
  assumes "keys_polled k (sys_trace s) polls" "filter (\<lambda>c. c \<noteq> 0) polls = c # cs" "c \<noteq> 13"
    "int (length l) < mx" "mx \<le> int (length out)" "take (length l) out = l"
  shows "\<exists>tr out' polls'. readline_loop k s out mx (int (length l)) =
      readline_loop k (s\<lparr>sys_trace := tr\<rparr>) out' mx (int (length (line_edit l c))) \<and>
    keys_polled k tr polls' \<and> filter (\<lambda>c. c \<noteq> 0) polls' = cs \<and> visible tr = visible (sys_trace s) @ [SysPutChar c] \<and>
    length out' = length out \<and> take (length (line_edit l c)) out' = line_edit l c"
proof -
  obtain n polls' where key: "coniferos_get_key_blocking k s = Some (scast c, s\<lparr>sys_trace := sys_trace s @ replicate n SysGetKey\<rparr>)"
    and polls': "keys_polled k (sys_trace s @ replicate n SysGetKey) polls'" "filter (\<lambda>c. c \<noteq> 0) polls' = cs"
    using get_key_blocking_first [OF assms(1,2)] by blast
  let ?tr = "sys_trace s @ replicate n SysGetKey @ [SysPutChar c]"
  have p: "keys_polled k ?tr polls'"
    using polls'(1) answers_other [of is_get_key "SysPutChar c" k "sys_trace s @ replicate n SysGetKey"] by simp
  have v: "visible ?tr = visible (sys_trace s) @ [SysPutChar c]" by simp
  have len: "length l < length out" using assms(4,5) by simp
  define out' where "out' = (if c = 8 \<and> l \<noteq> [] then out[length l - 1 := 0] else out[length l := c])"
  have step: "readline_loop k s out mx (int (length l)) = readline_loop k (s\<lparr>sys_trace := ?tr\<rparr>) out' mx (int (length (line_edit l c)))"
  proof (cases "c = 8 \<and> l \<noteq> []")
    case True
    then obtain l' x where l: "l = l' @ [x]" by (metis rev_exhaust)
    then have "upd_r out (int (length l) - 1) 0 = Inr out'" using True len by (simp add: out'_def upd_r_of_nat)
    then show ?thesis using True assms(3,4) l
      by (subst readline_loop.simps) (simp add: key Let_def stub_defs line_edit_def)
  next
    case False
    then have "upd_r out (int (length l)) c = Inr out'" "c \<noteq> 8 \<or> l = []"
      using len by (auto simp: out'_def upd_r_of_nat)
    then show ?thesis using assms(3,4)
      by (elim disjE; subst readline_loop.simps) (simp_all add: key Let_def stub_defs line_edit_def add.commute)
  qed
  have "take (length (line_edit l c)) out' = line_edit l c"
  proof (cases "c = 8 \<and> l \<noteq> []")
    case True
    then have "take (length l - 1) out = butlast l" using assms(6) len by (metis butlast_take less_imp_le)
    then show ?thesis using True by (simp add: out'_def line_edit_def)
  next
    case False
    then show ?thesis using assms(6) len by (auto simp: out'_def line_edit_def take_Suc_conv_app_nth)
  qed
  then show ?thesis using step p polls'(2) v by (intro exI [of _ ?tr] exI [of _ out'] exI [of _ polls']) (simp add: out'_def)
qed

lemma readline_keys:
  assumes "keys_polled k (sys_trace s) polls" "filter (\<lambda>c. c \<noteq> 0) polls = cs @ ds" "13 \<notin> set cs"
    "fits mx l cs" "mx \<le> int (length out)" "take (length l) out = l"
  shows "\<exists>tr out' polls'. readline_loop k s out mx (int (length l)) =
      readline_loop k (s\<lparr>sys_trace := tr\<rparr>) out' mx (int (length (foldl line_edit l cs))) \<and>
    keys_polled k tr polls' \<and> filter (\<lambda>c. c \<noteq> 0) polls' = ds \<and> visible tr = visible (sys_trace s) @ map SysPutChar cs \<and>
    length out' = length out \<and> take (length (foldl line_edit l cs)) out' = foldl line_edit l cs"
  using assms
proof (induction cs arbitrary: s l out polls)
  case Nil
  then show ?case by (intro exI [of _ "sys_trace s"] exI [of _ out] exI [of _ polls]) simp
next
  case (Cons c cs)
  obtain tr out' polls' where 1: "readline_loop k s out mx (int (length l)) =
      readline_loop k (s\<lparr>sys_trace := tr\<rparr>) out' mx (int (length (line_edit l c)))"
    "keys_polled k tr polls'" "filter (\<lambda>c. c \<noteq> 0) polls' = cs @ ds" "visible tr = visible (sys_trace s) @ [SysPutChar c]"
    "length out' = length out" "take (length (line_edit l c)) out' = line_edit l c"
    using readline_step [of k s polls c "cs @ ds" l mx out] Cons.prems by auto
  obtain tr2 out2 polls2 where 2: "readline_loop k (s\<lparr>sys_trace := tr\<rparr>) out' mx (int (length (line_edit l c))) =
      readline_loop k (s\<lparr>sys_trace := tr2\<rparr>) out2 mx (int (length (foldl line_edit l (c # cs))))"
    "keys_polled k tr2 polls2" "filter (\<lambda>c. c \<noteq> 0) polls2 = ds" "visible tr2 = visible tr @ map SysPutChar cs"
    "length out2 = length out" "take (length (foldl line_edit l (c # cs))) out2 = foldl line_edit l (c # cs)"
    using Cons.IH [of "s\<lparr>sys_trace := tr\<rparr>" polls' "line_edit l c" out'] 1 Cons.prems by auto
  show ?case using 1 2 by (intro exI [of _ tr2] exI [of _ out2] exI [of _ polls2]) simp
qed

lemma cstr_line: "take (Suc (length l)) xs = l @ [0] \<Longrightarrow> 0 \<notin> set l \<Longrightarrow> cstr xs = l"
  by (metis append_Cons append_Nil append_assoc append_take_drop_id cstr_append_null)

lemma edited_line_nonzero:
  assumes "filter (\<lambda>c. c \<noteq> 0) polls = cs @ ds"
  shows "0 \<notin> set (foldl line_edit [] cs)"
proof -
  have "set (foldl line_edit l xs) \<subseteq> set l \<union> set xs" for l xs
    by (induction xs arbitrary: l) (fastforce simp: line_edit_def dest: in_set_butlastD split: if_splits)+
  moreover have "0 \<notin> set cs" using arg_cong [OF assms, of set] by auto
  ultimately show ?thesis by fastforce
qed

lemma readline_result:
  assumes "keys_polled k (sys_trace s) polls" "filter (\<lambda>c. c \<noteq> 0) polls = cs @ [13]" "13 \<notin> set cs"
    "fits mx [] (cs @ [13])" "mx \<le> int (length out)"
  shows "\<exists>tr out'. coniferos_terminal_readline k s out mx = Inr (out', s\<lparr>sys_trace := tr\<rparr>) \<and>
    visible tr = visible (sys_trace s) @ map SysPutChar cs \<and> length out' = length out \<and>
    is_cstr out' \<and> cstr out' = foldl line_edit [] cs"
proof -
  have fits_app: "fits mx l (xs @ [13]) \<Longrightarrow> fits mx l xs \<and> int (length (foldl line_edit l xs)) < mx" for l xs
    by (induction xs arbitrary: l) auto
  let ?l = "foldl line_edit [] cs"
  obtain tr out' polls' where 1: "readline_loop k s out mx 0 = readline_loop k (s\<lparr>sys_trace := tr\<rparr>) out' mx (int (length ?l))"
    "keys_polled k tr polls'" "filter (\<lambda>c. c \<noteq> 0) polls' = [13]" "visible tr = visible (sys_trace s) @ map SysPutChar cs"
    "length out' = length out" "take (length ?l) out' = ?l"
    using readline_keys [of k s polls cs "[13]" mx "[]" out] assms fits_app by auto
  obtain n where key: "coniferos_get_key_blocking k (s\<lparr>sys_trace := tr\<rparr>) = Some (scast (13 :: u8), s\<lparr>sys_trace := tr @ replicate n SysGetKey\<rparr>)"
    using get_key_blocking_first [of k "s\<lparr>sys_trace := tr\<rparr>" polls' 13 "[]"] 1 by auto
  have l: "int (length ?l) < mx" "length ?l < length out'" using fits_app [OF assms(4)] assms(5) 1(5) by auto
  have "readline_loop k (s\<lparr>sys_trace := tr\<rparr>) out' mx (int (length ?l)) = Some (Inr (out', int (length ?l), s\<lparr>sys_trace := tr @ replicate n SysGetKey\<rparr>))"
    using l key by (subst readline_loop.simps) (simp add: Let_def)
  then have "coniferos_terminal_readline k s out mx = Inr (out'[length ?l := 0], s\<lparr>sys_trace := tr @ replicate n SysGetKey\<rparr>)"
    using l by (simp add: coniferos_terminal_readline_def 1(1) upd_r_of_nat)
  moreover have "take (Suc (length ?l)) (out'[length ?l := 0]) = ?l @ [0]"
    using 1(6) l by (simp add: take_Suc_conv_app_nth)
  then have "cstr (out'[length ?l := 0]) = ?l" using cstr_line edited_line_nonzero [OF assms(2)] by blast
  moreover have "is_cstr (out'[length ?l := 0])" using l by (simp add: is_cstr_def set_update_memI)
  ultimately show ?thesis using 1(4,5) by (intro exI [of _ "tr @ replicate n SysGetKey"] exI [of _ "out'[length ?l := 0]"]) simp
qed

section \<open>Formats\<close>

text \<open>The pieces of a format string, with the text that each should show.\<close>

datatype piece = Plain "u8 list" | Number int | Text "u8 list"

fun piece_format :: "piece \<Rightarrow> u8 list" where
  "piece_format (Plain bs) = bs"
| "piece_format (Number n) = [37, 105]"
| "piece_format (Text str) = [37, 115]"

fun piece_args :: "piece \<Rightarrow> va_arg list" where
  "piece_args (Plain bs) = []"
| "piece_args (Number n) = [VaInt n]"
| "piece_args (Text str) = [VaString str]"

fun piece_text :: "piece \<Rightarrow> u8 list" where
  "piece_text (Plain bs) = bs"
| "piece_text (Number n) = (if n = 0 then [48, 10] else decimal n)"
| "piece_text (Text str) = cstr str"

fun piece_ok :: "piece \<Rightarrow> bool" where
  "piece_ok (Plain bs) \<longleftrightarrow> 0 \<notin> set bs \<and> 37 \<notin> set bs"
| "piece_ok (Number n) \<longleftrightarrow> \<bar>n\<bar> < 2147483648"
| "piece_ok (Text str) \<longleftrightarrow> is_cstr str"

lemma printf_plain:
  "0 \<notin> set bs \<Longrightarrow> 37 \<notin> set bs \<Longrightarrow> \<exists>s'. printf_loop k s (bs @ p) args = printf_loop k s' p args \<and>
    shown (sys_trace s') = shown (sys_trace s) @ bs"
proof (induction bs arbitrary: s)
  case (Cons b bs)
  obtain s' where "printf_loop k (putchar k s b) (bs @ p) args = printf_loop k s' p args"
    "shown (sys_trace s') = shown (sys_trace (putchar k s b)) @ bs"
    using Cons.IH [of "putchar k s b"] Cons.prems by auto
  with Cons.prems show ?case by (intro exI [of _ s']) (auto simp: stub_defs)
qed auto

lemma itoa_shows: "\<bar>n\<bar> < 2147483648 \<Longrightarrow> \<exists>str. itoa n (replicate 12 0) = Inr str \<and> cstr str = piece_text (Number n)"
proof (cases "n = 0")
  case True
  have "replicate 12 (0 :: u8) = 0 # 0 # 0 # replicate 9 0" by (simp flip: replicate_Suc)
  then show ?thesis using True by (simp add: itoa_def)
next
  case False
  assume "\<bar>n\<bar> < 2147483648"
  then show ?thesis
    using itoa_eq [OF False, of "replicate 12 0"] length_decimal [of n] decimal_reads(3) [OF False] False by auto
qed

lemma printf_piece:
  assumes "piece_ok x"
  shows "\<exists>s'. printf_loop k s (piece_format x @ p) (piece_args x @ args) = printf_loop k s' p args \<and>
    shown (sys_trace s') = shown (sys_trace s) @ piece_text x"
proof (cases x)
  case (Plain bs)
  then show ?thesis using assms printf_plain by auto
next
  case (Number n)
  then obtain str where "itoa n (replicate 12 0) = Inr str" "cstr str = piece_text (Number n)"
    using itoa_shows assms by auto
  then show ?thesis unfolding Number by (intro exI [of _ "user_print k s str"]) (simp add: stub_defs)
next
  case (Text str)
  then show ?thesis by (intro exI [of _ "user_print k s str"]) (simp add: stub_defs)
qed

lemma printf_pieces:
  "list_all piece_ok ps \<Longrightarrow> \<exists>s'. printf_loop k s (concat (map piece_format ps) @ 0 # rest) (concat (map piece_args ps)) = Inr s' \<and>
    shown (sys_trace s') = shown (sys_trace s) @ concat (map piece_text ps)"
proof (induction ps arbitrary: s)
  case (Cons x ps)
  obtain s1 where 1: "printf_loop k s (piece_format x @ concat (map piece_format ps) @ 0 # rest) (piece_args x @ concat (map piece_args ps)) =
      printf_loop k s1 (concat (map piece_format ps) @ 0 # rest) (concat (map piece_args ps))"
    "shown (sys_trace s1) = shown (sys_trace s) @ piece_text x"
    using printf_piece [of x k s "concat (map piece_format ps) @ 0 # rest" "concat (map piece_args ps)"] Cons.prems by auto
  from Cons.IH [of s1] Cons.prems 1 show ?case by auto
qed simp

section \<open>A kernel for examples\<close>

definition demo_kernel :: "u8 list \<Rightarrow> u32 list \<Rightarrow> kernel_answers" where
  "demo_kernel polls addrs t =
     (let i = length (filter is_get_key (butlast t)); j = length (filter is_malloc (butlast t)) in
      case last t of
        SysGetKey \<Rightarrow> if i < length polls then scast (polls ! i) else 0
      | SysMalloc sz \<Rightarrow> if j < length addrs then addrs ! j else 0
      | _ \<Rightarrow> 0)"

lemma demo_kernel_keys: "keys_polled (demo_kernel polls addrs) [] polls"
  by (simp add: answers_def demo_kernel_def)

lemma demo_kernel_malloc: "answers is_malloc (demo_kernel polls addrs) [] addrs"
  by (auto simp: answers_def demo_kernel_def elim!: is_malloc.elims)

definition demo_user :: user_state where
  "demo_user = \<lparr>sys_trace = [], strtok_rest = None\<rparr>"

lemma demo_user_trace [simp]: "sys_trace demo_user = []"
  by (simp add: demo_user_def)

section \<open>Properties\<close>

text \<open>
  C36. Converting a number to text: for every \<^verbatim>\<open>int\<close> but 0 and the least one, \<^verbatim>\<open>itoa\<close> leaves in a buffer of
  at least 12 bytes a terminated decimal numeral without leading zeros that reads back, digit by
  digit with \<^verbatim>\<open>ctoi\<close>, as the number, and writes at most the first 12 bytes.
\<close>

theorem itoa_reads_back:
  assumes "num \<noteq> 0" "\<bar>num\<bar> < 2 ^ 31" "12 \<le> length buffer"
  shows "\<exists>out. itoa num buffer = Inr out \<and> is_cstr out \<and> is_decimal (cstr out) \<and> read_decimal (cstr out) = num \<and>
    length out = length buffer \<and> drop 12 out = drop 12 buffer"
proof -
  let ?d = "decimal num"
  have len: "length ?d \<le> 11" using length_decimal assms(2) by simp
  then have "itoa num buffer = Inr (?d @ 0 # drop (Suc (length ?d)) buffer)"
    using itoa_eq [OF assms(1)] assms(2,3) by simp
  moreover have "drop 12 (?d @ 0 # drop (Suc (length ?d)) buffer) = drop 12 buffer"
    using len assms(3) by (simp add: drop_Cons')
  ultimately show ?thesis using decimal_reads [OF assms(1)] len assms(3) by (auto simp: is_cstr_def)
qed

theorem itoa_reads_back_witness:
  "\<exists>out. itoa (- 407) (replicate 12 9) = Inr out \<and> is_cstr out \<and> is_decimal (cstr out) \<and> read_decimal (cstr out) = - 407 \<and>
    length out = 12 \<and> drop 12 out = []"
  using itoa_reads_back [of "- 407" "replicate 12 9"] by simp

text \<open>
  C37. Formatted output: the text that \<^verbatim>\<open>printf\<close> hands to the kernel is, piece by piece, the plain
  characters of the format, the decimal numeral of each \<^verbatim>\<open>%i\<close> argument and the string of each \<^verbatim>\<open>%s\<close>
  argument, except that the number 0 is shown with a line feed after it.
\<close>

theorem printf_renders:
  assumes "list_all piece_ok ps"
  shows "\<exists>s'. printf k s (concat (map piece_format ps) @ 0 # rest) (concat (map piece_args ps)) = Inr s' \<and>
    shown (sys_trace s') = shown (sys_trace s) @ concat (map piece_text ps)"
  unfolding printf_def using printf_pieces [OF assms] .

theorem printf_renders_witness:
  "\<exists>s'. printf (\<lambda>_. 0) demo_user [97, 61, 37, 105, 44, 37, 115, 44, 37, 105, 0] [VaInt (- 12), VaString [98, 99, 0], VaInt 0] = Inr s' \<and>
    shown (sys_trace s') = [97, 61, 45, 49, 50, 44, 98, 99, 44, 48, 10]"
  using printf_renders [of "[Plain [97, 61], Number (- 12), Plain [44], Text [98, 99, 0], Plain [44], Number 0]" "\<lambda>_. 0" demo_user "[]"]
  by (simp add: decimal_def rev_digits_pos digit_char_def)

text \<open>
  C38. Reading a line: when the keys typed before the carriage return keep the line shorter than
  the bound, \<^verbatim>\<open>coniferos_terminal_readline\<close> returns with the edited line in the buffer, where a
  backspace has removed the character before it, and has echoed every key in order.
\<close>

theorem readline_edits_line:
  assumes "keys_polled k (sys_trace s) polls" "filter (\<lambda>c. c \<noteq> 0) polls = cs @ [13]" "13 \<notin> set cs"
    "fits mx [] (cs @ [13])" "mx \<le> int (length out)"
  shows "\<exists>out' s'. coniferos_terminal_readline k s out mx = Inr (out', s') \<and> cstr out' = foldl line_edit [] cs \<and>
    is_cstr out' \<and> length out' = length out \<and> visible (sys_trace s') = visible (sys_trace s) @ map SysPutChar cs"
  using readline_result [OF assms] by fastforce

theorem readline_edits_line_witness:
  "\<exists>out' s'. coniferos_terminal_readline (demo_kernel [97, 0, 98, 0, 0, 8, 99, 13] []) demo_user (replicate 5 7) 5 = Inr (out', s') \<and>
    cstr out' = [97, 99] \<and> is_cstr out' \<and> length out' = 5 \<and> visible (sys_trace s') = map SysPutChar [97, 98, 8, 99]"
  using readline_edits_line [of "demo_kernel [97, 0, 98, 0, 0, 8, 99, 13] []" demo_user "[97, 0, 98, 0, 0, 8, 99, 13]" "[97, 98, 8, 99]" 5
      "replicate 5 7"] demo_kernel_keys [of "[97, 0, 98, 0, 0, 8, 99, 13]" "[]"]
  by (simp add: line_edit_def)

text \<open>
  C39. A line of the full length: when the line fills the buffer before the carriage return, the
  loop ends with the index at the bound and the terminator is written one byte past the buffer.
\<close>

theorem readline_full_line_overflows:
  assumes "keys_polled k (sys_trace s) polls" "filter (\<lambda>c. c \<noteq> 0) polls = cs @ ds" "13 \<notin> set cs"
    "fits (int (length out)) [] cs" "length (foldl line_edit [] cs) = length out"
  shows "coniferos_terminal_readline k s out (int (length out)) = Inl OutOfBounds"
proof -
  obtain tr out' where 1: "readline_loop k s out (int (length out)) 0 =
      readline_loop k (s\<lparr>sys_trace := tr\<rparr>) out' (int (length out)) (int (length out))" "length out' = length out"
    using readline_keys [OF assms(1-4), of out] assms(5) by auto
  then show ?thesis
    by (simp add: coniferos_terminal_readline_def readline_loop.simps [of k _ out' "int (length out)" "int (length out)"] upd_r_of_nat)
qed

theorem readline_full_line_overflows_witness:
  "coniferos_terminal_readline (demo_kernel [97, 98, 99, 13] []) demo_user [0, 0, 0] 3 = Inl OutOfBounds"
  using readline_full_line_overflows [of "demo_kernel [97, 98, 99, 13] []" demo_user "[97, 98, 99, 13]" "[97, 98, 99]" "[13]" "[0, 0, 0]"]
    demo_kernel_keys [of "[97, 98, 99, 13]" "[]"]
  by (simp add: line_edit_def)

end
