(* ===== verification/Shell.thy ===== *)
theory Shell
  imports User_Lib
begin

text \<open>
  The programs \<^verbatim>\<open>src/user_programs/shell/src/shell.c\<close> and \<^verbatim>\<open>src/user_programs/echo/src/echo.c\<close>. Command tokens and
  arrays of pointers are objects in stores keyed by the addresses that \<^verbatim>\<open>malloc\<close> returned; the
  kernel zeroes a new block. The content of the uninitialised local buffers is an argument.
\<close>

section \<open>Command tokens\<close>

abbreviation (input) MAX_COMMAND_LEN :: nat where "MAX_COMMAND_LEN \<equiv> 1024"
abbreviation (input) SHELL_ARG_LEN :: nat where "SHELL_ARG_LEN \<equiv> 128"

record command_token =
  token :: "u8 list"
  next_token :: u32

record shell_state = user_state +
  tokens :: "u32 \<rightharpoonup> command_token"
  argvs :: "u32 \<rightharpoonup> u32 list"

section \<open>Parsing a command\<close>

text \<open>
  Allocation of a token. \<^verbatim>\<open>strncpy\<close> may write its terminator behind \<^verbatim>\<open>token\<close>, into the first byte of
  \<^verbatim>\<open>next\<close>, which is set to null afterwards.
\<close>

definition new_token :: "kernel_answers \<Rightarrow> 'a shell_state_scheme \<Rightarrow> u8 list \<Rightarrow> (u32 \<times> 'a shell_state_scheme) outcome" where
  "new_token k s tok =
     (let (p, s) = malloc k s 132 in
      if p = 0 then Inr (0, s)
      else bind_r (strncpy (replicate (SHELL_ARG_LEN + 1) 0) tok SHELL_ARG_LEN) (\<lambda>t.
        Inr (p, s\<lparr>tokens := (tokens s)(p \<mapsto> \<lparr>token = take SHELL_ARG_LEN t, next_token = 0\<rparr>)\<rparr>)))"

lemma strtok_loop_shorter: "strtok_loop cs d out i = Inr (out', Some rest) \<Longrightarrow> length rest < length cs"
  by (induction cs d out i arbitrary: out' rule: strtok_loop.induct)
    (auto simp: bind_r_eq_Inr_iff split: if_splits intro: less_SucI)

lemma strtok_shorter:
  "strtok low s None d out = Inr (True, out', s') \<Longrightarrow>
    (case strtok_rest s' of None \<Rightarrow> 0 | Some r \<Rightarrow> Suc (length r)) < (case strtok_rest s of None \<Rightarrow> 0 | Some r \<Rightarrow> Suc (length r))"
  by (auto simp: strtok_def bind_r_eq_Inr_iff split: option.splits dest: strtok_loop_shorter)

lemma new_token_rest: "new_token k s tok = Inr (p, s') \<Longrightarrow> strtok_rest s' = strtok_rest s"
  by (auto simp: new_token_def stub_defs bind_r_eq_Inr_iff Let_def split: if_splits)

function parse_loop :: "kernel_answers \<Rightarrow> u8 list \<Rightarrow> 'a shell_state_scheme \<Rightarrow> u32 \<Rightarrow> u32 \<Rightarrow> u8 list \<Rightarrow>
    (u32 \<times> 'a shell_state_scheme) outcome" where
  "parse_loop k low s root current token_buf =
     bind_r (memset token_buf 0 1024) (\<lambda>token_buf.
       bind_r (strtok low s None 32 token_buf) (\<lambda>(found, token_buf, s).
         if \<not> found then Inr (root, s)
         else bind_r (new_token k s token_buf) (\<lambda>(next_arg, s).
           if next_arg = 0
           then Inr (0, (free k s root)\<lparr>tokens := (tokens s)(root := None)\<rparr>)
           else bind_r (deref (tokens s) current) (\<lambda>t.
             parse_loop k low (s\<lparr>tokens := (tokens s)(current \<mapsto> t\<lparr>next_token := next_arg\<rparr>)\<rparr>) root next_arg token_buf))))"
  by pat_completeness auto
termination
  by (relation "measure (\<lambda>(k, low, s, root, current, buf). case strtok_rest s of None \<Rightarrow> 0 | Some r \<Rightarrow> Suc (length r))")
    (auto dest!: new_token_rest strtok_shorter)

declare parse_loop.simps [simp del]

definition parse_command :: "kernel_answers \<Rightarrow> u8 list \<Rightarrow> 'a shell_state_scheme \<Rightarrow> u8 list \<Rightarrow> int \<Rightarrow> u8 list \<Rightarrow>
    (u32 \<times> 'a shell_state_scheme) outcome" where
  "parse_command k low s command command_len token_buf =
     (if command_len > int MAX_COMMAND_LEN then Inr (0, s)
      else bind_r (strtok low s (Some command) 32 token_buf) (\<lambda>(found, token_buf, s).
        if \<not> found then Inr (0, s)
        else bind_r (new_token k s token_buf) (\<lambda>(root_command, s).
          if root_command = 0 then Inr (0, s)
          else parse_loop k low s root_command root_command token_buf)))"

section \<open>Arguments\<close>

text \<open>\<open>None\<close>: the list is cyclic.\<close>

partial_function (option) count_loop :: "(u32 \<rightharpoonup> command_token) \<Rightarrow> u32 \<Rightarrow> int \<Rightarrow> int outcome option" where
  "count_loop st itr count =
     (if itr = 0 then Some (Inr count)
      else case st itr of None \<Rightarrow> Some (Inl NullDeref) | Some t \<Rightarrow> count_loop st (next_token t) (count + 1))"

function fill_argv_loop :: "(u32 \<rightharpoonup> command_token) \<Rightarrow> u32 \<Rightarrow> int \<Rightarrow> int \<Rightarrow> u32 list \<Rightarrow> u32 list outcome" where
  "fill_argv_loop st itr count i argv =
     (if i < count
      then bind_r (deref st itr) (\<lambda>t. bind_r (upd_r argv i itr) (\<lambda>argv. fill_argv_loop st (next_token t) count (i + 1) argv))
      else Inr argv)"
  by pat_completeness auto
termination
  by (relation "measure (\<lambda>(st, itr, count, i, argv). nat (count - i))") auto

declare fill_argv_loop.simps [simp del]

text \<open>
  The second component is \<^verbatim>\<open>*arg_count\<close>. A pointer to the member \<^verbatim>\<open>token\<close> is the address of its
  structure.
\<close>

definition create_argv_array :: "kernel_answers \<Rightarrow> 'a shell_state_scheme \<Rightarrow> u32 \<Rightarrow> int \<Rightarrow>
    (u32 \<times> int \<times> 'a shell_state_scheme) outcome" where
  "create_argv_array k s command arg_count =
     (if command = 0 then Inr (0, arg_count, s)
      else bind_r (deref (tokens s) command) (\<lambda>t.
        case count_loop (tokens s) (next_token t) 0 of
          None \<Rightarrow> Inl Diverge
        | Some r \<Rightarrow> bind_r r (\<lambda>count.
            let (argv, s) = malloc k s (of_int ((count + 1) * 4)) in
            if argv = 0
            then bind_r (printf k s (c_string ''shell.c: ERROR: could not allocate memory for argv'') []) (\<lambda>s. Inr (0, arg_count, s))
            else bind_r (fill_argv_loop (tokens s) (next_token t) count 0 (replicate (nat (count + 1)) 0)) (\<lambda>ptrs.
              bind_r (upd_r ptrs count 0) (\<lambda>ptrs. Inr (argv, count, s\<lparr>argvs := (argvs s)(argv \<mapsto> ptrs)\<rparr>))))))"

section \<open>The shell\<close>

text \<open>The string at the address of a token, and the strings of an array of pointers; \<open>low\<close> is at address 0.\<close>

definition token_at :: "u8 list \<Rightarrow> 'a shell_state_scheme \<Rightarrow> u32 \<Rightarrow> u8 list outcome" where
  "token_at low s p = (if p = 0 then Inr low else bind_r (deref (tokens s) p) (\<lambda>t. Inr (token t)))"

fun tokens_at :: "u8 list \<Rightarrow> 'a shell_state_scheme \<Rightarrow> u32 list \<Rightarrow> u8 list list outcome" where
  "tokens_at low s [] = Inr []"
| "tokens_at low s (p # ps) = bind_r (token_at low s p) (\<lambda>t. bind_r (tokens_at low s ps) (\<lambda>ts. Inr (t # ts)))"

definition argv_strings :: "u8 list \<Rightarrow> 'a shell_state_scheme \<Rightarrow> u32 \<Rightarrow> u8 list list outcome" where
  "argv_strings low s argv =
     (if argv = 0 then Inr [] else bind_r (deref (argvs s) argv) (\<lambda>ptrs. tokens_at low s (takeWhile (\<lambda>p. p \<noteq> 0) ptrs)))"

text \<open>One round of the loop of \<^verbatim>\<open>main\<close>.\<close>

definition shell_round :: "kernel_answers \<Rightarrow> u8 list \<Rightarrow> u8 list \<Rightarrow> u8 list \<Rightarrow> 'a shell_state_scheme \<Rightarrow> 'a shell_state_scheme outcome" where
  "shell_round k low path_buf token_buf s =
     bind_r (printf k s (c_string ''> '') []) (\<lambda>s.
     bind_r (strlen (c_string ''0:/'')) (\<lambda>len_path_prefix.
     bind_r (strncpy path_buf (c_string ''0:/'') (nat len_path_prefix)) (\<lambda>path_buf.
     bind_r (coniferos_terminal_readline k s (drop (nat len_path_prefix) path_buf) (int MAX_COMMAND_LEN - len_path_prefix)) (\<lambda>(line, s).
     bind_r (parse_command k low s (take (nat len_path_prefix) path_buf @ line) (int MAX_COMMAND_LEN) token_buf) (\<lambda>(root, s).
     bind_r (create_argv_array k s root 0) (\<lambda>(argv, n, s).
     bind_r (token_at low s root) (\<lambda>fname.
     bind_r (argv_strings low s argv) (\<lambda>args. Inr (coniferos_execve k s fname args n)))))))))"

primrec shell_rounds :: "nat \<Rightarrow> kernel_answers \<Rightarrow> u8 list \<Rightarrow> u8 list \<Rightarrow> u8 list \<Rightarrow> 'a shell_state_scheme \<Rightarrow> 'a shell_state_scheme outcome" where
  "shell_rounds 0 k low path_buf token_buf s = Inr s"
| "shell_rounds (Suc n) k low path_buf token_buf s =
     bind_r (shell_round k low path_buf token_buf s) (\<lambda>s. shell_rounds n k low path_buf token_buf s)"

text \<open>\<^verbatim>\<open>main\<close> up to the end of round \<open>n\<close>; it never returns.\<close>

definition shell_main :: "nat \<Rightarrow> kernel_answers \<Rightarrow> u8 list \<Rightarrow> u8 list \<Rightarrow> u8 list \<Rightarrow> 'a shell_state_scheme \<Rightarrow> 'a shell_state_scheme outcome" where
  "shell_main n k low path_buf token_buf s =
     bind_r (printf k s (c_string (''ConiferOS shell v0.0.1'' @ [CHR 0x0A])) []) (\<lambda>s.
     bind_r (printf k s (c_string (''-----------------------'' @ [CHR 0x0A])) []) (\<lambda>s.
     bind_r (printf k s (c_string (''Try executing '' @ [CHR 0x27] @ ''ECHO.ELF HELLO'' @ [CHR 0x27, CHR 0x0A])) []) (\<lambda>s.
     bind_r (printf k s (c_string (''-----------------------'' @ [CHR 0x0A, CHR 0x0A])) []) (\<lambda>s.
     shell_rounds n k low path_buf token_buf s))))"

section \<open>Echo\<close>

function echo_loop :: "kernel_answers \<Rightarrow> 'a user_state_scheme \<Rightarrow> int \<Rightarrow> u8 list list \<Rightarrow> int \<Rightarrow> 'a user_state_scheme outcome" where
  "echo_loop k s argc argv i =
     (if i < argc
      then bind_r (printf k s [10, 0] []) (\<lambda>s. bind_r (nth_r argv i) (\<lambda>arg. bind_r (printf k s arg []) (\<lambda>s. echo_loop k s argc argv (i + 1))))
      else Inr s)"
  by pat_completeness auto
termination
  by (relation "measure (\<lambda>(k, s, argc, argv, i). nat (argc - i))") auto

declare echo_loop.simps [simp del]

definition echo_main :: "kernel_answers \<Rightarrow> 'a user_state_scheme \<Rightarrow> int \<Rightarrow> u8 list list \<Rightarrow> 'a user_state_scheme outcome" where
  "echo_main k s argc argv = bind_r (echo_loop k s argc argv 0) (\<lambda>s. printf k s [10, 0] [])"

section \<open>Words\<close>

lemma strtok_loop_eq:
  "0 \<notin> set cs \<Longrightarrow> d \<noteq> 0 \<Longrightarrow> i + length (takeWhile (\<lambda>c. c \<noteq> d) cs) < length out \<Longrightarrow>
    strtok_loop (cs @ 0 # ys) d out i =
      Inr (take i out @ takeWhile (\<lambda>c. c \<noteq> d) cs @ 0 # drop (Suc (i + length (takeWhile (\<lambda>c. c \<noteq> d) cs))) out,
        case dropWhile (\<lambda>c. c \<noteq> d) cs of [] \<Rightarrow> None | _ # cs \<Rightarrow> Some (cs @ 0 # ys))"
proof (induction cs arbitrary: i out)
  case Nil
  then show ?case by (simp add: upd_r_of_nat upd_conv_take_nth_drop)
next
  case (Cons c cs)
  show ?case
  proof (cases "c = d")
    case True
    then show ?thesis using Cons.prems by (simp add: upd_r_of_nat upd_conv_take_nth_drop)
  next
    case False
    then show ?thesis using Cons.prems Cons.IH [of "Suc i" "out[i := c]"]
      by (simp add: upd_r_of_nat upd_conv_take_nth_drop take_Suc_conv_app_nth min_def add.commute)
  qed
qed

text \<open>The rest of the command, as \<^verbatim>\<open>strtok\<close> keeps it, and the words in it.\<close>

definition rest_words :: "u8 list option \<Rightarrow> u8 list list \<Rightarrow> bool" where
  "rest_words r ws \<longleftrightarrow> (case r of None \<Rightarrow> ws = []
     | Some bs \<Rightarrow> is_cstr bs \<and> ws = split_words 32 (cstr bs) \<and> length bs \<le> 1024)"

lemma strtok_from:
  assumes "is_cstr bs" "length bs \<le> 1024" "length out = 1024" "is_cstr (case str of None \<Rightarrow> low | Some p \<Rightarrow> p)"
    "(case str of None \<Rightarrow> strtok_rest s | Some p \<Rightarrow> Some p) = Some bs"
  shows "\<exists>out' rest w ws. strtok low s str 32 out = Inr (True, out', s\<lparr>strtok_rest := rest\<rparr>) \<and> length out' = 1024 \<and>
    is_cstr out' \<and> cstr out' = w \<and> split_words 32 (cstr bs) = w # ws \<and> rest_words rest ws"
proof -
  obtain ys where bs: "bs = cstr bs @ 0 # ys" using cstr_split [OF assms(1)] by blast
  let ?w = "takeWhile (\<lambda>c. c \<noteq> 32) (cstr bs)" and ?r = "dropWhile (\<lambda>c. c \<noteq> 32) (cstr bs)"
  have w: "length ?w < 1024" using length_cstr_less [OF assms(1)] assms(2) length_takeWhile_le [of "\<lambda>c. c \<noteq> 32" "cstr bs"] by linarith
  have loop: "strtok_loop bs 32 out 0 = Inr (?w @ 0 # drop (Suc (length ?w)) out, case ?r of [] \<Rightarrow> None | _ # cs \<Rightarrow> Some (cs @ 0 # ys))"
    using strtok_loop_eq [of "cstr bs" 32 0 out ys] cstr_no_null [of bs] w assms(3) bs by simp
  have n: "0 \<notin> set ?w" using cstr_no_null [of bs] set_takeWhileD by fastforce
  have rest: "rest_words (case ?r of [] \<Rightarrow> None | _ # cs \<Rightarrow> Some (cs @ 0 # ys)) (tl (split_words 32 (cstr bs)))"
  proof (cases ?r)
    case Nil
    show ?thesis by (simp add: rest_words_def split_words.simps [of _ "cstr bs"] Nil del: dropWhile_eq_Nil_conv)
  next
    case (Cons c cs)
    have "0 \<notin> set ?r" using cstr_no_null [of bs] set_dropWhileD by fastforce
    moreover have "length ?r \<le> length (cstr bs)" by (rule length_dropWhile_le)
    then have "Suc (length cs) + Suc (length ys) \<le> length bs"
      using Cons arg_cong [OF bs, of length] by simp
    ultimately show ?thesis using Cons assms(2) by (simp add: rest_words_def split_words.simps [of _ "cstr bs"] is_cstr_def)
  qed
  have "strtok low s str 32 out = Inr (True, ?w @ 0 # drop (Suc (length ?w)) out, s\<lparr>strtok_rest := (case ?r of [] \<Rightarrow> None | _ # cs \<Rightarrow> Some (cs @ 0 # ys))\<rparr>)"
    using assms(4,5) loop by (simp add: strtok_def strlen_eq)
  then show ?thesis using rest n w assms(3)
    by (intro exI conjI) (assumption | simp add: split_words.simps [of _ "cstr bs"] is_cstr_def)+
qed

section \<open>The list of tokens\<close>

text \<open>The list at \<open>p\<close> has its tokens at the given addresses, and they hold the given words.\<close>

fun chain :: "(u32 \<rightharpoonup> command_token) \<Rightarrow> u32 \<Rightarrow> u32 list \<Rightarrow> u8 list list \<Rightarrow> bool" where
  "chain st p [] [] \<longleftrightarrow> p = 0"
| "chain st p (a # as) (w # ws) \<longleftrightarrow> p = a \<and> a \<noteq> 0 \<and>
     (case st a of None \<Rightarrow> False | Some t \<Rightarrow> is_cstr (token t) \<and> cstr (token t) = w \<and> chain st (next_token t) as ws)"
| "chain st p _ _ \<longleftrightarrow> False"

abbreviation mallocs_answered :: "kernel_answers \<Rightarrow> sys_event list \<Rightarrow> u32 list \<Rightarrow> bool" where
  "mallocs_answered k tr addrs \<equiv> answers is_malloc k tr addrs"

lemma new_token_eq:
  assumes "mallocs_answered k (sys_trace s) (a # as)" "a \<noteq> 0" "is_cstr tok" "length (cstr tok) < 128"
  shows "\<exists>t s'. new_token k s tok = Inr (a, s') \<and> s' = s\<lparr>sys_trace := sys_trace s @ [SysMalloc 132], tokens := (tokens s)(a \<mapsto> t)\<rparr> \<and>
    mallocs_answered k (sys_trace s') as \<and> next_token t = 0 \<and> is_cstr (token t) \<and> cstr (token t) = cstr tok"
proof -
  let ?l = "length (cstr tok)"
  have "malloc k s 132 = (a, s\<lparr>sys_trace := sys_trace s @ [SysMalloc 132]\<rparr>)"
    using answers_first [OF assms(1), of "SysMalloc 132"] by (simp add: stub_defs)
  moreover have "strncpy (replicate 129 0) tok 128 = Inr (cstr tok @ 0 # drop (Suc ?l) (replicate 129 0))"
    using assms(3,4) by (simp add: strncpy_eq min_def)
  moreover have "take 128 (cstr tok @ 0 # drop (Suc ?l) (replicate 129 0)) = cstr tok @ 0 # replicate (127 - ?l) 0"
    using assms(4) by (simp add: take_Cons' min_def)
  ultimately show ?thesis using assms(2) answers_next [OF assms(1), of "SysMalloc 132"] cstr_no_null [of tok]
    by (intro exI [of _ "\<lparr>token = cstr tok @ 0 # replicate (127 - ?l) 0, next_token = 0\<rparr>"]) (simp add: new_token_def is_cstr_def)
qed

lemma parse_loop_builds:
  assumes "rest_words (strtok_rest s) ws" "is_cstr low" "length buf = 1024" "list_all (\<lambda>w. length w < 128) ws"
    "mallocs_answered k (sys_trace s) (as @ vs)" "length as = length ws" "distinct (current # as)" "0 \<notin> set as"
    "tokens s current = Some t" "next_token t = 0"
  shows "\<exists>s' t'. parse_loop k low s root current buf = Inr (root, s') \<and> tokens s' current = Some t' \<and> token t' = token t \<and>
    chain (tokens s') (next_token t') as ws \<and> mallocs_answered k (sys_trace s') vs \<and>
    (\<forall>p. p \<notin> set (current # as) \<longrightarrow> tokens s' p = tokens s p) \<and> argvs s' = argvs s"
  using assms
proof (induction ws arbitrary: s buf as current t)
  case Nil
  then have "strtok_rest s = None" by (auto simp: rest_words_def split_words.simps [of 32] split: option.splits)
  then have "parse_loop k low s root current buf = Inr (root, s)"
    using Nil.prems(3) by (subst parse_loop.simps) (simp add: memset_eq strtok_def)
  then show ?case using Nil.prems by simp
next
  case (Cons w ws)
  obtain a as' where as: "as = a # as'" using Cons.prems(6) by (cases as) auto
  obtain bs where bs: "strtok_rest s = Some bs" "is_cstr bs" "length bs \<le> 1024" "split_words 32 (cstr bs) = w # ws"
    using Cons.prems(1) by (auto simp: rest_words_def split: option.splits)
  obtain out' rest where tok: "strtok low s None 32 (replicate 1024 0) = Inr (True, out', s\<lparr>strtok_rest := rest\<rparr>)" "length out' = 1024"
    "is_cstr out'" "cstr out' = w" "rest_words rest ws"
    using strtok_from [OF bs(2,3), of "replicate 1024 0" low None s] Cons.prems(2) bs(1,4) by auto
  let ?s1 = "s\<lparr>strtok_rest := rest\<rparr>"
  obtain t1 s2 where new: "new_token k ?s1 out' = Inr (a, s2)"
    "s2 = ?s1\<lparr>sys_trace := sys_trace s @ [SysMalloc 132], tokens := (tokens s)(a \<mapsto> t1)\<rparr>"
    "mallocs_answered k (sys_trace s2) (as' @ vs)" "next_token t1 = 0" "is_cstr (token t1)" "cstr (token t1) = w"
    using new_token_eq [of k ?s1 a "as' @ vs" out'] tok Cons.prems(4,5,8) as by auto
  let ?s3 = "s2\<lparr>tokens := (tokens s2)(current \<mapsto> t\<lparr>next_token := a\<rparr>)\<rparr>"
  have ca: "current \<noteq> a" "a \<noteq> 0" using Cons.prems(7,8) as by auto
  have step: "parse_loop k low s root current buf = parse_loop k low ?s3 root a out'"
    using Cons.prems(3,9) tok(1) new(1,2) ca by (subst parse_loop.simps) (simp add: memset_eq)
  obtain s' t' where ih: "parse_loop k low ?s3 root a out' = Inr (root, s')" "tokens s' a = Some t'" "token t' = token t1"
    "chain (tokens s') (next_token t') as' ws" "mallocs_answered k (sys_trace s') vs"
    "\<And>p. p \<notin> set (a # as') \<Longrightarrow> tokens s' p = tokens ?s3 p" "argvs s' = argvs ?s3"
    using Cons.IH [of ?s3 out' as' a t1] Cons.prems new tok as ca by auto
  have "tokens s' current = Some (t\<lparr>next_token := a\<rparr>)" using ih(6) [of current] Cons.prems(7) as by auto
  moreover have "tokens s' p = tokens s p" if "p \<notin> set (current # as)" for p
    using ih(6) [of p] that new(2) as by auto
  ultimately show ?case
    using step ih new as ca by (intro exI [of _ s'] exI [of _ "t\<lparr>next_token := a\<rparr>"]) simp
qed

lemma parse_command_builds:
  assumes "is_cstr cmd" "length cmd \<le> 1024" "split_words 32 (cstr cmd) = w # ws" "list_all (\<lambda>w. length w < 128) (w # ws)"
    "is_cstr low" "length buf = 1024" "mallocs_answered k (sys_trace s) ((a # as) @ vs)" "length as = length ws"
    "distinct (a # as)" "0 \<notin> set (a # as)"
  shows "\<exists>s'. parse_command k low s cmd 1024 buf = Inr (a, s') \<and> chain (tokens s') a (a # as) (w # ws) \<and>
    mallocs_answered k (sys_trace s') vs \<and> argvs s' = argvs s"
proof -
  obtain out' rest where tok: "strtok low s (Some cmd) 32 buf = Inr (True, out', s\<lparr>strtok_rest := rest\<rparr>)" "length out' = 1024"
    "is_cstr out'" "cstr out' = w" "rest_words rest ws"
    using strtok_from [OF assms(1,2,6), of low "Some cmd" s] assms(1,3) by auto
  let ?s1 = "s\<lparr>strtok_rest := rest\<rparr>"
  obtain t1 s2 where new: "new_token k ?s1 out' = Inr (a, s2)"
    "s2 = ?s1\<lparr>sys_trace := sys_trace s @ [SysMalloc 132], tokens := (tokens s)(a \<mapsto> t1)\<rparr>"
    "mallocs_answered k (sys_trace s2) (as @ vs)" "next_token t1 = 0" "is_cstr (token t1)" "cstr (token t1) = w"
    using new_token_eq [of k ?s1 a "as @ vs" out'] tok assms(4,7,10) by auto
  obtain s' t' where "parse_loop k low s2 a a out' = Inr (a, s')" "tokens s' a = Some t'" "token t' = token t1"
    "chain (tokens s') (next_token t') as ws" "mallocs_answered k (sys_trace s') vs" "argvs s' = argvs s2"
    using parse_loop_builds [of s2 ws low out' k as vs a t1 a] new tok assms by auto
  then show ?thesis using tok(1) new assms(10) by (auto simp: parse_command_def)
qed

section \<open>The array of arguments\<close>

lemma count_loop_eq: "chain st p as ws \<Longrightarrow> count_loop st p n = Some (Inr (n + int (length as)))"
  by (induction st p as ws arbitrary: n rule: chain.induct) (subst count_loop.simps, auto split: option.splits)+

lemma fill_argv_loop_eq:
  "chain st p as ws \<Longrightarrow> fill_argv_loop st p (int (length xs + length as)) (int (length xs)) (xs @ replicate (length as) 0 @ ys) = Inr (xs @ as @ ys)"
proof (induction st p as ws arbitrary: xs rule: chain.induct)
  case (1 st p)
  then show ?case by (subst fill_argv_loop.simps) simp
next
  case (2 st p a as w ws)
  then obtain t where t: "st a = Some t" "chain st (next_token t) as ws" "p = a" by (auto split: option.splits)
  have "fill_argv_loop st p (int (length xs + length (a # as))) (int (length xs)) (xs @ replicate (length (a # as)) 0 @ ys) =
      fill_argv_loop st (next_token t) (int (length (xs @ [a]) + length as)) (int (length (xs @ [a]))) ((xs @ [a]) @ replicate (length as) 0 @ ys)"
    using t by (subst fill_argv_loop.simps) (simp add: upd_r_at add.commute)
  then show ?case using "2.IH" [OF t(1,2), of "xs @ [a]"] by simp
qed auto

lemma create_argv_array_eq:
  assumes "chain (tokens s) root (root # as) (w # ws)" "mallocs_answered k (sys_trace s) (v # vs)" "v \<noteq> 0"
  shows "\<exists>s'. create_argv_array k s root n = Inr (v, int (length as), s') \<and> tokens s' = tokens s \<and> argvs s' v = Some (as @ [0])"
proof -
  obtain t where t: "tokens s root = Some t" "chain (tokens s) (next_token t) as ws" "root \<noteq> 0"
    using assms(1) by (auto split: option.splits)
  have m: "malloc k s sz = (v, s\<lparr>sys_trace := sys_trace s @ [SysMalloc sz]\<rparr>)" for sz
    using answers_first [OF assms(2), of "SysMalloc sz"] by (simp add: stub_defs)
  have f: "fill_argv_loop (tokens s) (next_token t) (int (length as)) 0 (replicate (nat (int (length as) + 1)) 0) = Inr (as @ [0])"
    using fill_argv_loop_eq [OF t(2), of "[]" "[0]"] by (simp add: nat_add_distrib replicate_append_same)
  show ?thesis using t assms(3) count_loop_eq [OF t(2), of 0] f
    by (simp add: create_argv_array_def m upd_r_at [of as "length as" 0 "[]"])
qed

lemma tokens_at_eq:
  "chain (tokens s) p as ws \<Longrightarrow> \<exists>ts. tokens_at low s as = Inr ts \<and> map cstr ts = ws"
  by (induction "tokens s" p as ws rule: chain.induct) (auto simp: token_at_def split: option.splits)

lemma chain_nonzero: "chain st p as ws \<Longrightarrow> 0 \<notin> set as"
  by (induction st p as ws rule: chain.induct) (auto split: option.splits)

section \<open>A round of the shell\<close>

lemma shell_strings: "c_string ''> '' = [62, 32, 0]" "c_string ''0:/'' = [48, 58, 47, 0]"
  by code_simp+

lemma prompt_shown: "\<exists>s1. printf k s [62, 32, 0] [] = Inr s1 \<and> s1 = s\<lparr>sys_trace := sys_trace s @ [SysPutChar 62, SysPutChar 32]\<rparr>"
  by (simp add: printf_def stub_defs)

lemma path_prefix_copied:
  "length path_buf = 1024 \<Longrightarrow> strncpy path_buf [48, 58, 47, 0] 3 = Inr ([48, 58, 47] @ 0 # drop 4 path_buf)"
proof -
  have d: "drop 4 path_buf = drop (Suc (Suc (Suc (Suc 0)))) path_buf" by (simp add: numeral_eq_Suc)
  assume "length path_buf = 1024"
  then show ?thesis unfolding d by (simp add: strncpy_eq is_cstr_def)
qed

text \<open>
  C35. A round of the shell: the keys typed up to the carriage return, edited as above and put
  behind \<^verbatim>\<open>0:/\<close>, are split at the spaces; the shell then calls \<^verbatim>\<open>execve\<close> with the first word as the
  file name, the others as arguments and their number, provided that the line fits its buffer,
  every word is shorter than 128 characters and the kernel has memory for the tokens.
\<close>

theorem shell_round_executes:
  assumes "keys_polled k (sys_trace s) polls" "filter (\<lambda>c. c \<noteq> 0) polls = cs @ [13]" "13 \<notin> set cs" "fits 1021 [] (cs @ [13])"
    "split_words 32 ([48, 58, 47] @ foldl line_edit [] cs) = w # ws" "list_all (\<lambda>w. length w < 128) (w # ws)"
    "mallocs_answered k (sys_trace s) ((a # as) @ [v])" "length as = length ws" "distinct (a # as)" "0 \<notin> set ((a # as) @ [v])"
    "is_cstr low" "length path_buf = 1024" "length token_buf = 1024"
  shows "\<exists>s' fname args. shell_round k low path_buf token_buf s = Inr s' \<and>
    last (sys_trace s') = SysExecve fname args (int (length ws)) \<and> cstr fname = w \<and> map cstr args = ws"
proof -
  let ?s1 = "s\<lparr>sys_trace := sys_trace s @ [SysPutChar 62, SysPutChar 32]\<rparr>"
  have k1: "keys_polled k (sys_trace ?s1) polls" 
    by (rule answers_cong [THEN iffD2, OF _ assms(1)]) simp
  obtain tr line where line: "coniferos_terminal_readline k ?s1 (0 # drop 4 path_buf) 1021 = Inr (line, ?s1\<lparr>sys_trace := tr\<rparr>)"
    "visible tr = visible (sys_trace ?s1) @ map SysPutChar cs" "length line = 1021" "is_cstr line" "cstr line = foldl line_edit [] cs"
    using readline_result [OF k1 assms(2-4), of "0 # drop 4 path_buf"] assms(12) by auto
  let ?s2 = "?s1\<lparr>sys_trace := tr\<rparr>" and ?cmd = "[48, 58, 47] @ line"
  have "filter is_malloc tr = filter is_malloc (visible tr)" by (induction tr) auto
  also have "\<dots> = filter is_malloc (sys_trace s)"
    unfolding line(2) by (auto simp: filter_empty_conv intro!: filter_cong)
  finally have m2: "mallocs_answered k (sys_trace ?s2) ((a # as) @ [v])" 
    by (intro answers_cong [THEN iffD2, OF _ assms(7)]) simp
  have cmd: "is_cstr ?cmd" "length ?cmd \<le> 1024" "split_words 32 (cstr ?cmd) = w # ws" using line assms(5) by simp_all
  obtain s3 where s3: "parse_command k low ?s2 ?cmd 1024 token_buf = Inr (a, s3)" "chain (tokens s3) a (a # as) (w # ws)"
    "mallocs_answered k (sys_trace s3) [v]"
    using parse_command_builds [OF cmd assms(6,11,13) m2 assms(8,9)] assms(10) by auto
  obtain s4 where s4: "create_argv_array k s3 a 0 = Inr (v, int (length as), s4)" "tokens s4 = tokens s3" "argvs s4 v = Some (as @ [0])"
    using create_argv_array_eq [OF s3(2,3)] assms(10) by auto
  obtain t where t: "tokens s3 a = Some t" "cstr (token t) = w" "chain (tokens s3) (next_token t) as ws"
    using s3(2) by (auto split: option.splits)
  obtain ts where ts: "tokens_at low s4 as = Inr ts" "map cstr ts = ws" using tokens_at_eq [of s4 "next_token t" as ws low] t(3) s4(2) by auto
  have args: "argv_strings low s4 v = Inr ts"
    using s4(3) ts(1) chain_nonzero [OF t(3)] assms(10) by (simp add: argv_strings_def takeWhile_append)
  have "shell_round k low path_buf token_buf s = Inr (coniferos_execve k s4 (token t) ts (int (length as)))"
    using line(1) s3(1) s4(1) t(1) args assms(10,12) prompt_shown [of k s]
    by (simp add: shell_round_def shell_strings path_prefix_copied token_at_def s4(2))
  then show ?thesis using t(2) ts(2) assms(8) by (simp add: stub_defs)
qed

definition demo_shell :: shell_state where
  "demo_shell = \<lparr>sys_trace = [], strtok_rest = None, tokens = Map.empty, argvs = Map.empty\<rparr>"

theorem shell_round_executes_witness:
  "\<exists>s' fname args. shell_round (demo_kernel [69, 88, 8, 0, 32, 72, 73, 13] [0x4000, 0x5000, 0x6000]) [0] (replicate 1024 7) (replicate 1024 7) demo_shell =
      Inr s' \<and> last (sys_trace s') = SysExecve fname args 1 \<and> cstr fname = [48, 58, 47, 69] \<and> map cstr args = [[72, 73]]"
  using shell_round_executes [of "demo_kernel [69, 88, 8, 0, 32, 72, 73, 13] [0x4000, 0x5000, 0x6000]" demo_shell
      "[69, 88, 8, 0, 32, 72, 73, 13]" "[69, 88, 8, 32, 72, 73]" "[48, 58, 47, 69]" "[[72, 73]]" "0x4000" "[0x5000]" "0x6000" "[0]"
      "replicate 1024 7" "replicate 1024 7"]
    demo_kernel_keys [of "[69, 88, 8, 0, 32, 72, 73, 13]" "[0x4000, 0x5000, 0x6000]"]
    demo_kernel_malloc [of "[69, 88, 8, 0, 32, 72, 73, 13]" "[0x4000, 0x5000, 0x6000]"]
  by (simp add: demo_shell_def line_edit_def split_words.simps is_cstr_def)

end
